theory Spec2Isabelle
  imports Complex_Main
begin

section \<open>Strings and numbers of the host language\<close>

text \<open>
  The program is TypeScript. A \<open>number\<close> is modelled as a \<open>real\<close>: the theorems below are about
  the arithmetic the code writes down, not about the rounding of IEEE doubles. A string is a
  \<open>string\<close> (a list of 8-bit characters standing for code units below 256).
\<close>

definition lowerLetters :: string where
  "lowerLetters = ''abcdefghijklmnopqrstuvwxyz''"

definition upperLetters :: string where
  "upperLetters = ''ABCDEFGHIJKLMNOPQRSTUVWXYZ''"

definition upperChar :: "char \<Rightarrow> char" where
  "upperChar c = (case map_of (zip lowerLetters upperLetters) c of Some u \<Rightarrow> u | None \<Rightarrow> c)"

definition lowerChar :: "char \<Rightarrow> char" where
  "lowerChar c = (case map_of (zip upperLetters lowerLetters) c of Some l \<Rightarrow> l | None \<Rightarrow> c)"

text \<open>\<open>String.prototype.toUpperCase\<close> and \<open>toLowerCase\<close> on the letters a-z and A-Z.\<close>

definition toUpperCase :: "string \<Rightarrow> string" where
  "toUpperCase s = map upperChar s"

definition toLowerCase :: "string \<Rightarrow> string" where
  "toLowerCase s = map lowerChar s"

definition digitChar :: "nat \<Rightarrow> char" where
  "digitChar d = ''0123456789abcdefghijklmnopqrstuvwxyz'' ! d"

text \<open>\<open>Number.prototype.toString(radix)\<close> on a natural number: lowercase digits, no padding.\<close>

fun natToString :: "nat \<Rightarrow> nat \<Rightarrow> string" where
  "natToString radix n =
     (if radix < 2 \<or> n < radix then [digitChar n]
      else natToString radix (n div radix) @ [digitChar (n mod radix)])"

declare natToString.simps [simp del]

section \<open>Built-in functions the parsers call\<close>

text \<open>White space as \<open>\s\<close>, \<open>trim\<close> and \<open>parseInt\<close> see it, among the code units below 256.\<close>

definition whiteSpace :: string where
  "whiteSpace = [CHR 0x09, CHR 0x0A, CHR 0x0B, CHR 0x0C, CHR 0x0D, CHR '' '', CHR 0xA0]"

definition isWhiteSpace :: "char \<Rightarrow> bool" where
  "isWhiteSpace c = (c \<in> set whiteSpace)"

definition decimalDigits :: string where
  "decimalDigits = ''0123456789''"

definition isDigit :: "char \<Rightarrow> bool" where
  "isDigit c = (c \<in> set decimalDigits)"

definition hexDigits :: string where
  "hexDigits = ''0123456789abcdefABCDEF''"

definition isHexDigit :: "char \<Rightarrow> bool" where
  "isHexDigit c = (c \<in> set hexDigits)"

text \<open>The value of a digit in a radix up to 16; letters count in either case.\<close>

definition digitValue :: "char \<Rightarrow> nat" where
  "digitValue c =
     (case map_of (zip ''0123456789abcdef'' [0, 1, 2, 3, 4, 5, 6, 7, 8, 9, 10, 11, 12, 13, 14, 15])
             (lowerChar c) of
        Some d \<Rightarrow> d
      | None \<Rightarrow> 0)"

definition digitsValue :: "nat \<Rightarrow> string \<Rightarrow> nat" where
  "digitsValue radix ds = foldl (\<lambda>acc c. radix * acc + digitValue c) 0 ds"

text \<open>\<open>String.prototype.trim\<close>\<close>

definition trim :: "string \<Rightarrow> string" where
  "trim s = rev (dropWhile isWhiteSpace (rev (dropWhile isWhiteSpace s)))"

definition startsWith :: "string \<Rightarrow> string \<Rightarrow> bool" where
  "startsWith s pre = (take (length pre) s = pre)"

definition endsWith :: "string \<Rightarrow> string \<Rightarrow> bool" where
  "endsWith s suf = (length suf \<le> length s \<and> drop (length s - length suf) s = suf)"

text \<open>
  \<open>parseInt(s, 16)\<close>: leading white space goes, then a sign, then a prefix \<open>0x\<close> or \<open>0X\<close>; the
  longest run of hexadecimal digits that follows is the number, whatever comes after it.
  \<open>None\<close> stands for \<open>NaN\<close>, the result when that run is empty.
\<close>

definition parseInt16 :: "string \<Rightarrow> int option" where
  "parseInt16 s =
     (let s1 = dropWhile isWhiteSpace s;
          negative = (s1 \<noteq> [] \<and> hd s1 = CHR ''-'');
          s2 = (if s1 \<noteq> [] \<and> (hd s1 = CHR ''+'' \<or> hd s1 = CHR ''-'') then tl s1 else s1);
          s3 = (if startsWith s2 ''0x'' \<or> startsWith s2 ''0X'' then drop 2 s2 else s2);
          ds = takeWhile isHexDigit s3
      in if ds = [] then None
         else Some (if negative then - int (digitsValue 16 ds) else int (digitsValue 16 ds)))"

text \<open>
  \<open>parseFloat\<close> on the strings the regular expressions of the parsers capture: digits, an
  optional fraction, then a suffix that is not read. Such a string holds no sign and no
  exponent. \<open>None\<close> stands for \<open>NaN\<close>.
\<close>

definition parseFloat :: "string \<Rightarrow> real option" where
  "parseFloat s =
     (let ip = takeWhile isDigit s;
          rest = dropWhile isDigit s;
          fp = (case rest of c # t \<Rightarrow> (if c = CHR ''.'' then takeWhile isDigit t else []) | [] \<Rightarrow> [])
      in if ip = [] \<and> fp = [] then None
         else Some (real (digitsValue 10 ip) + real (digitsValue 10 fp) / 10 ^ length fp))"

text \<open>The remainder operator \<open>%\<close> on numbers: the quotient is truncated towards zero.\<close>

definition jsRemainder :: "real \<Rightarrow> real \<Rightarrow> real" where
  "jsRemainder x y = x - y * of_int (if 0 \<le> x / y then \<lfloor>x / y\<rfloor> else \<lceil>x / y\<rceil>)"

text \<open>\<open>Number.prototype.toString(16)\<close> on an integer, and \<open>padStart(2, '0')\<close>.\<close>

definition intToString16 :: "int \<Rightarrow> string" where
  "intToString16 n = (if n < 0 then CHR ''-'' # natToString 16 (nat (- n)) else natToString 16 (nat n))"

definition padStart2 :: "string \<Rightarrow> string" where
  "padStart2 s = replicate (2 - length s) CHR ''0'' @ s"

subsection \<open>Regular expressions\<close>

text \<open>
  The fragment of regular expressions the parsers use, anchored at the start of the string:
  a character class, a sequence, an alternative, a greedy option, a greedy bounded or
  unbounded repetition of a character class, a capture group and the end of the input. Matching backtracks as
  the host's engine does: \<open>matchRegex\<close> lists, in the order the engine tries them, the ways
  the expression matches a prefix of the input, each with the input left over and the
  groups captured so far. The first way is the match the engine reports.
\<close>

datatype regex =
    OneOf string
  | Seq regex regex
  | Alt regex regex
  | Opt regex
  | Many string nat "nat option"
  | Group nat regex
  | EndOfInput

type_synonym captures = "(nat \<times> string) list"

fun matchRegex :: "regex \<Rightarrow> string \<Rightarrow> captures \<Rightarrow> (string \<times> captures) list" where
  "matchRegex (OneOf cs) s caps =
     (case s of [] \<Rightarrow> [] | c # rest \<Rightarrow> (if c \<in> set cs then [(rest, caps)] else []))"
| "matchRegex (Seq a b) s caps =
     concat (map (\<lambda>(s', caps'). matchRegex b s' caps') (matchRegex a s caps))"
| "matchRegex (Alt a b) s caps = matchRegex a s caps @ matchRegex b s caps"
| "matchRegex (Opt a) s caps = matchRegex a s caps @ [(s, caps)]"
| "matchRegex (Many cs lo hi) s caps =
     (let n = length (takeWhile (\<lambda>c. c \<in> set cs) s);
          m = (case hi of None \<Rightarrow> n | Some h \<Rightarrow> min n h)
      in map (\<lambda>k. (drop k s, caps)) (rev [lo..<Suc m]))"
| "matchRegex (Group i a) s caps =
     map (\<lambda>(s', caps'). (s', (i, take (length s - length s') s) # caps')) (matchRegex a s caps)"
| "matchRegex EndOfInput s caps = (if s = [] then [(s, caps)] else [])"

text \<open>\<open>str.match(re)\<close> for an expression without the global flag: the groups, or \<open>null\<close>.\<close>

definition regexMatch :: "regex \<Rightarrow> string \<Rightarrow> captures option" where
  "regexMatch re s = (case matchRegex re s [] of [] \<Rightarrow> None | (rest, caps) # others \<Rightarrow> Some caps)"

fun seqs :: "regex list \<Rightarrow> regex" where
  "seqs [] = Many [] 0 None"
| "seqs [a] = a"
| "seqs (a # b # rest) = Seq a (seqs (b # rest))"

text \<open>A literal under the flag \<open>i\<close>: each letter in either case.\<close>

definition literalIgnoreCase :: "string \<Rightarrow> regex" where
  "literalIgnoreCase s = seqs (map (\<lambda>c. OneOf [lowerChar c, upperChar c]) s)"

section \<open>Data model (types.ts)\<close>

record RGBA =
  rgba_r :: real
  rgba_g :: real
  rgba_b :: real
  rgba_a :: real

record HSLA =
  hsla_h :: real
  hsla_s :: real
  hsla_l :: real
  hsla_a :: real

record OKLab =
  oklab_L :: real
  oklab_a :: real
  oklab_b :: real

record OKLCH =
  oklch_L :: real
  oklch_C :: real
  oklch_h :: real

record NormalizedColor =
  nc_input :: string
  nc_rgba :: RGBA
  nc_hex :: string
  nc_hsla :: HSLA
  nc_oklab :: OKLab
  nc_oklch :: OKLCH

datatype NamingStrategy = StrategyAuto | StrategyNone | StrategyProvided

section \<open>Color space conversion (convert.ts)\<close>

text \<open>\<open>Math.round\<close>: the nearest integer, a half going up.\<close>

definition Math_round :: "real \<Rightarrow> real" where
  "Math_round x = of_int \<lfloor>x + 1 / 2\<rfloor>"

definition rgbaToHsla :: "RGBA \<Rightarrow> HSLA" where
  "rgbaToHsla rgba =
     (let r = rgba_r rgba / 255;
          g = rgba_g rgba / 255;
          b = rgba_b rgba / 255;
          mx = max r (max g b);
          mn = min r (min g b);
          l = (mx + mn) / 2;
          d = mx - mn;
          s = (if mx \<noteq> mn then (if l > 0.5 then d / (2 - mx - mn) else d / (mx + mn)) else 0);
          h = (if mx \<noteq> mn then
                 (if mx = r then ((g - b) / d + (if g < b then 6 else 0)) / 6
                  else if mx = g then ((b - r) / d + 2) / 6
                  else if mx = b then ((r - g) / d + 4) / 6
                  else 0)
               else 0)
      in \<lparr>hsla_h = Math_round (h * 360),
          hsla_s = Math_round (s * 100),
          hsla_l = Math_round (l * 100),
          hsla_a = rgba_a rgba\<rparr>)"

text \<open>
  \<open>Math.pow\<close> is only applied to a positive base here, where it is \<open>powr\<close>; \<open>Math.cbrt\<close> is
  the real cube root, \<open>root 3\<close>.
\<close>

definition srgbToLinear :: "real \<Rightarrow> real" where
  "srgbToLinear c0 =
     (let c = c0 / 255
      in if c \<le> 0.04045 then c / 12.92 else ((c + 0.055) / 1.055) powr 2.4)"

definition linearToSrgb :: "real \<Rightarrow> real" where
  "linearToSrgb c =
     (let clamped = max 0 (min 1 c)
      in if clamped \<le> 0.0031308 then Math_round (clamped * 12.92 * 255)
         else Math_round ((1.055 * clamped powr (1 / 2.4) - 0.055) * 255))"

definition rgbaToOklab :: "RGBA \<Rightarrow> OKLab" where
  "rgbaToOklab rgba =
     (let r = srgbToLinear (rgba_r rgba);
          g = srgbToLinear (rgba_g rgba);
          b = srgbToLinear (rgba_b rgba);
          l' = 0.4122214708 * r + 0.5363325363 * g + 0.0514459929 * b;
          m' = 0.2119034982 * r + 0.6806995451 * g + 0.1073969566 * b;
          s' = 0.0883024619 * r + 0.2817188376 * g + 0.6299787005 * b;
          l = root 3 l';
          m = root 3 m';
          s = root 3 s'
      in \<lparr>oklab_L = 0.2104542553 * l + 0.793617785 * m - 0.0040720468 * s,
          oklab_a = 1.9779984951 * l - 2.428592205 * m + 0.4505937099 * s,
          oklab_b = 0.0259040371 * l + 0.7827717662 * m - 0.808675766 * s\<rparr>)"

definition oklabToRgba :: "OKLab \<Rightarrow> real \<Rightarrow> RGBA" where
  "oklabToRgba oklab alpha =
     (let l' = oklab_L oklab + 0.3963377774 * oklab_a oklab + 0.2158037573 * oklab_b oklab;
          m' = oklab_L oklab - 0.1055613458 * oklab_a oklab - 0.0638541728 * oklab_b oklab;
          s' = oklab_L oklab - 0.0894841775 * oklab_a oklab - 1.291485548 * oklab_b oklab;
          l = l' * l' * l';
          m = m' * m' * m';
          s = s' * s' * s';
          r = 4.0767416621 * l - 3.3077115913 * m + 0.2309699292 * s;
          g = - 1.2684380046 * l + 2.6097574011 * m - 0.3413193965 * s;
          b = - 0.0041960863 * l - 0.7034186147 * m + 1.707614701 * s
      in \<lparr>rgba_r = linearToSrgb r, rgba_g = linearToSrgb g, rgba_b = linearToSrgb b,
          rgba_a = alpha\<rparr>)"

text \<open>\<open>Math.atan2\<close>, the angle of the point \<open>(x, y)\<close> in \<open>(-\<pi>, \<pi>]\<close>.\<close>

definition Math_atan2 :: "real \<Rightarrow> real \<Rightarrow> real" where
  "Math_atan2 y x =
     (if x > 0 then arctan (y / x)
      else if x < 0 then (if y \<ge> 0 then arctan (y / x) + pi else arctan (y / x) - pi)
      else if y > 0 then pi / 2
      else if y < 0 then - pi / 2
      else 0)"

definition oklabToOklch :: "OKLab \<Rightarrow> OKLCH" where
  "oklabToOklch oklab =
     (let C = sqrt (oklab_a oklab * oklab_a oklab + oklab_b oklab * oklab_b oklab);
          h0 = (Math_atan2 (oklab_b oklab) (oklab_a oklab) * 180) / pi;
          h = (if h0 < 0 then h0 + 360 else h0)
      in \<lparr>oklch_L = oklab_L oklab, oklch_C = C, oklch_h = h\<rparr>)"

definition oklchToOklab :: "OKLCH \<Rightarrow> OKLab" where
  "oklchToOklab oklch =
     (let hRad = (oklch_h oklch * pi) / 180
      in \<lparr>oklab_L = oklch_L oklch,
          oklab_a = oklch_C oklch * cos hRad,
          oklab_b = oklch_C oklch * sin hRad\<rparr>)"

section \<open>Parsing (parse.ts)\<close>

text \<open>A channel that may be \<open>NaN\<close> is an option; \<open>null\<close> is \<open>None\<close>.\<close>

definition makeRgba :: "real option \<Rightarrow> real option \<Rightarrow> real option \<Rightarrow> real option \<Rightarrow> RGBA option" where
  "makeRgba r g b a =
     (case r of None \<Rightarrow> None | Some r' \<Rightarrow>
      case g of None \<Rightarrow> None | Some g' \<Rightarrow>
      case b of None \<Rightarrow> None | Some b' \<Rightarrow>
      case a of None \<Rightarrow> None | Some a' \<Rightarrow>
        Some \<lparr>rgba_r = r', rgba_g = g', rgba_b = b', rgba_a = a'\<rparr>)"

definition parseHex :: "string \<Rightarrow> RGBA option" where
  "parseHex hex =
     (let cleaned = (case hex of [] \<Rightarrow> [] | c # rest \<Rightarrow> (if c = CHR ''#'' then rest else hex));
          channel = (\<lambda>digits. map_option real_of_int (parseInt16 digits));
          alpha = (\<lambda>digits. map_option (\<lambda>n. real_of_int n / 255) (parseInt16 digits))
      in if length cleaned = 3 then
           makeRgba (channel [cleaned ! 0, cleaned ! 0]) (channel [cleaned ! 1, cleaned ! 1])
             (channel [cleaned ! 2, cleaned ! 2]) (Some 1)
         else if length cleaned = 4 then
           makeRgba (channel [cleaned ! 0, cleaned ! 0]) (channel [cleaned ! 1, cleaned ! 1])
             (channel [cleaned ! 2, cleaned ! 2]) (alpha [cleaned ! 3, cleaned ! 3])
         else if length cleaned = 6 then
           makeRgba (channel (take 2 cleaned)) (channel (take 2 (drop 2 cleaned)))
             (channel (take 2 (drop 4 cleaned))) (Some 1)
         else if length cleaned = 8 then
           makeRgba (channel (take 2 cleaned)) (channel (take 2 (drop 2 cleaned)))
             (channel (take 2 (drop 4 cleaned))) (alpha (take 2 (drop 6 cleaned)))
         else None)"

text \<open>The pieces of the two regular expressions.\<close>

definition spaces :: regex where
  "spaces = Many whiteSpace 0 None"

definition separator :: regex where
  "separator = seqs [spaces, OneOf (CHR '','' # whiteSpace), spaces]"

text \<open>\<open>\d{1,3}(?:\.\d+)?\<close>\<close>

definition shortNumber :: regex where
  "shortNumber = Seq (Many decimalDigits 1 (Some 3)) (Opt (Seq (OneOf ''.'') (Many decimalDigits 1 None)))"

text \<open>\<open>\d{1,3}(?:\.\d+)?%?\<close>\<close>

definition component :: regex where
  "component = Seq shortNumber (Opt (OneOf ''%''))"

text \<open>\<open>(?:[,/]\s*(\d*\.?\d+%?))?\<close>\<close>

definition alphaPart :: regex where
  "alphaPart =
     Opt (seqs [OneOf '',/'', spaces,
                Group 4 (seqs [Many decimalDigits 0 None, Opt (OneOf ''.''),
                               Many decimalDigits 1 None, Opt (OneOf ''%'')])])"

definition rgbRegex :: regex where
  "rgbRegex =
     seqs [literalIgnoreCase ''rgb'', Opt (literalIgnoreCase ''a''), OneOf ''('', spaces,
           Group 1 component, separator, Group 2 component, separator, Group 3 component,
           spaces, alphaPart, spaces, OneOf '')'', EndOfInput]"

text \<open>\<open>\d{1,3}(?:\.\d+)?(?:deg|rad|turn)?\<close>\<close>

definition hueComponent :: regex where
  "hueComponent =
     Seq shortNumber
       (Opt (Alt (literalIgnoreCase ''deg'') (Alt (literalIgnoreCase ''rad'') (literalIgnoreCase ''turn''))))"

definition hslRegex :: regex where
  "hslRegex =
     seqs [literalIgnoreCase ''hsl'', Opt (literalIgnoreCase ''a''), OneOf ''('', spaces,
           Group 1 hueComponent, separator, Group 2 component, separator, Group 3 component,
           spaces, alphaPart, spaces, OneOf '')'', EndOfInput]"

text \<open>\<open>/^[0-9a-f]{3,8}$/i\<close>\<close>

definition bareHexRegex :: regex where
  "bareHexRegex = Seq (Many hexDigits 3 (Some 8)) EndOfInput"

text \<open>\<open>match[i]\<close>: the text a group captured, \<open>undefined\<close> when it took no part in the match.\<close>

definition group :: "captures \<Rightarrow> nat \<Rightarrow> string option" where
  "group caps i = map_of caps i"

definition parseComponent :: "string \<Rightarrow> real \<Rightarrow> real option" where
  "parseComponent val mx =
     (if endsWith val ''%'' then map_option (\<lambda>x. (x / 100) * mx) (parseFloat val)
      else parseFloat val)"

definition clampChannel :: "real option \<Rightarrow> real option" where
  "clampChannel v = map_option (\<lambda>x. min 255 (max 0 (Math_round x))) v"

text \<open>The alpha of \<open>parseRgb\<close> and \<open>parseHsl\<close>, read from the fourth group.\<close>

definition parseAlpha :: "string option \<Rightarrow> real option" where
  "parseAlpha m4 =
     (case m4 of
        None \<Rightarrow> Some 1
      | Some val \<Rightarrow>
          map_option (\<lambda>a. min 1 (max 0 a))
            (if endsWith val ''%'' then map_option (\<lambda>x. x / 100) (parseFloat val)
             else parseFloat val))"

text \<open>
  The first three groups lie outside every option of the expression, so a match always
  captures them and \<open>the\<close> reads a captured text.
\<close>

definition parseRgb :: "string \<Rightarrow> RGBA option" where
  "parseRgb str =
     (case regexMatch rgbRegex str of
        None \<Rightarrow> None
      | Some m \<Rightarrow>
          (let r = clampChannel (parseComponent (the (group m 1)) 255);
               g = clampChannel (parseComponent (the (group m 2)) 255);
               b = clampChannel (parseComponent (the (group m 3)) 255);
               a = parseAlpha (group m 4)
           in makeRgba r g b a))"

definition hueToRgb :: "real \<Rightarrow> real \<Rightarrow> real \<Rightarrow> real" where
  "hueToRgb p q t0 =
     (let t1 = (if t0 < 0 then t0 + 1 else t0);
          t = (if t1 > 1 then t1 - 1 else t1)
      in if t < 1 / 6 then p + (q - p) * 6 * t
         else if t < 1 / 2 then q
         else if t < 2 / 3 then p + (q - p) * (2 / 3 - t) * 6
         else p)"

definition parsePercent :: "string \<Rightarrow> real option" where
  "parsePercent val = map_option (\<lambda>num. min 100 (max 0 num)) (parseFloat val)"

definition parseHue :: "string \<Rightarrow> real option" where
  "parseHue val =
     map_option
       (\<lambda>h0. let h = (if endsWith val ''rad'' then (h0 * 180) / pi
                      else if endsWith val ''turn'' then h0 * 360
                      else h0)
             in jsRemainder (jsRemainder h 360 + 360) 360)
       (parseFloat val)"

definition hslToRgba :: "real \<Rightarrow> real \<Rightarrow> real \<Rightarrow> real \<Rightarrow> RGBA" where
  "hslToRgba h s l a =
     (if s = 0 then
        \<lparr>rgba_r = Math_round (l * 255), rgba_g = Math_round (l * 255),
         rgba_b = Math_round (l * 255), rgba_a = a\<rparr>
      else
        (let q = (if l < 0.5 then l * (1 + s) else l + s - l * s);
             p = 2 * l - q
         in \<lparr>rgba_r = Math_round (hueToRgb p q (h / 360 + 1 / 3) * 255),
             rgba_g = Math_round (hueToRgb p q (h / 360) * 255),
             rgba_b = Math_round (hueToRgb p q (h / 360 - 1 / 3) * 255),
             rgba_a = a\<rparr>))"

text \<open>
  \<open>parseHsl\<close> has no test for \<open>NaN\<close>; its regular expression lets only numbers through, and
  the model returns \<open>None\<close> in the case that cannot arise.
\<close>

definition parseHsl :: "string \<Rightarrow> RGBA option" where
  "parseHsl str =
     (case regexMatch hslRegex str of
        None \<Rightarrow> None
      | Some m \<Rightarrow>
          (case parseHue (the (group m 1)) of None \<Rightarrow> None | Some h \<Rightarrow>
           case parsePercent (the (group m 2)) of None \<Rightarrow> None | Some s100 \<Rightarrow>
           case parsePercent (the (group m 3)) of None \<Rightarrow> None | Some l100 \<Rightarrow>
           case parseAlpha (group m 4) of None \<Rightarrow> None | Some a \<Rightarrow>
             Some (hslToRgba h (s100 / 100) (l100 / 100) a)))"

definition parseColor :: "string \<Rightarrow> RGBA option" where
  "parseColor input =
     (let trimmed = trim input
      in if startsWith trimmed ''#'' then parseHex trimmed
         else if startsWith (toLowerCase trimmed) ''rgb'' then parseRgb trimmed
         else if startsWith (toLowerCase trimmed) ''hsl'' then parseHsl trimmed
         else if regexMatch bareHexRegex trimmed \<noteq> None then parseHex (CHR ''#'' # trimmed)
         else None)"

definition toHex :: "real \<Rightarrow> string" where
  "toHex n = toUpperCase (padStart2 (intToString16 \<lfloor>n + 1 / 2\<rfloor>))"

definition rgbaToHex :: "RGBA \<Rightarrow> string" where
  "rgbaToHex rgba =
     (let hex = CHR ''#'' # toHex (rgba_r rgba) @ toHex (rgba_g rgba) @ toHex (rgba_b rgba)
      in if rgba_a rgba < 1 then hex @ toHex (rgba_a rgba * 255) else hex)"

section \<open>Normalization (convert.ts)\<close>

datatype error = InvalidColorFormat string

definition normalizeColor :: "string \<Rightarrow> error + NormalizedColor" where
  "normalizeColor input =
     (case parseColor input of
        None \<Rightarrow> Inl (InvalidColorFormat input)
      | Some rgba \<Rightarrow>
          (let hex = rgbaToHex rgba;
               hsla = rgbaToHsla rgba;
               oklab = rgbaToOklab rgba;
               oklch = oklabToOklch oklab
           in Inr \<lparr>nc_input = input, nc_rgba = rgba, nc_hex = hex, nc_hsla = hsla,
                   nc_oklab = oklab, nc_oklch = oklch\<rparr>))"

section \<open>Contrast (contrast.ts)\<close>

definition srgbToLuminanceChannel :: "real \<Rightarrow> real" where
  "srgbToLuminanceChannel c =
     (let srgb = c / 255
      in if srgb \<le> 0.03928 then srgb / 12.92 else ((srgb + 0.055) / 1.055) powr 2.4)"

definition getRelativeLuminance :: "RGBA \<Rightarrow> real" where
  "getRelativeLuminance rgba =
     (let r = srgbToLuminanceChannel (rgba_r rgba);
          g = srgbToLuminanceChannel (rgba_g rgba);
          b = srgbToLuminanceChannel (rgba_b rgba)
      in 0.2126 * r + 0.7152 * g + 0.0722 * b)"

definition getContrastRatio :: "RGBA \<Rightarrow> RGBA \<Rightarrow> real" where
  "getContrastRatio color1 color2 =
     (let l1 = getRelativeLuminance color1;
          l2 = getRelativeLuminance color2;
          lighter = max l1 l2;
          darker = min l1 l2
      in (lighter + 0.05) / (darker + 0.05))"

definition DARK_TEXT :: string where
  "DARK_TEXT = ''#111111''"

definition LIGHT_TEXT :: string where
  "LIGHT_TEXT = ''#FFFFFF''"

definition darkTextRgba :: RGBA where
  "darkTextRgba = \<lparr>rgba_r = 17, rgba_g = 17, rgba_b = 17, rgba_a = 1\<rparr>"

definition lightTextRgba :: RGBA where
  "lightTextRgba = \<lparr>rgba_r = 255, rgba_g = 255, rgba_b = 255, rgba_a = 1\<rparr>"

definition computeTextColor :: "string \<Rightarrow> string" where
  "computeTextColor bgHex =
     (case parseColor bgHex of
        None \<Rightarrow> DARK_TEXT
      | Some bg \<Rightarrow>
          (let darkContrast = getContrastRatio bg darkTextRgba;
               lightContrast = getContrastRatio bg lightTextRgba
           in if lightContrast > darkContrast then LIGHT_TEXT else DARK_TEXT))"

definition meetsWcagAA :: "real \<Rightarrow> bool \<Rightarrow> bool" where
  "meetsWcagAA ratio largeText = (ratio \<ge> (if largeText then 3 else 4.5))"

definition meetsWcagAAA :: "real \<Rightarrow> bool \<Rightarrow> bool" where
  "meetsWcagAAA ratio largeText = (ratio \<ge> (if largeText then 4.5 else 7))"

section \<open>Perceptual distance (convert.ts)\<close>

definition colorDistance :: "OKLab \<Rightarrow> OKLab \<Rightarrow> real" where
  "colorDistance x y =
     (let dL = oklab_L x - oklab_L y;
          da = oklab_a x - oklab_a y;
          db = oklab_b x - oklab_b y
      in sqrt (dL * dL + da * da + db * db))"

section \<open>Color naming (name.ts)\<close>

record ColorEntry =
  ce_hex :: string
  ce_name :: string
  ce_color :: NormalizedColor

text \<open>
  The tables of \<open>data/colors.ts\<close> are parameters of the model: \<open>HUE_FAMILIES\<close> as the list
  \<open>Object.entries\<close> yields, \<open>LIGHTNESS_MODIFIERS\<close> and \<open>CHROMA_MODIFIERS\<close> as the arrays of
  triples they are, and \<open>COLOR_NAMES\<close> as the argument of \<open>getColorCache\<close>. The cache is built
  once and kept; as it is a function of \<open>COLOR_NAMES\<close> alone, the functions below take the
  list of entries it holds as their argument \<open>cache\<close>.
\<close>

fun getColorCache :: "(string \<times> string) list \<Rightarrow> error + ColorEntry list" where
  "getColorCache [] = Inr []"
| "getColorCache ((hex, name) # rest) =
     (case normalizeColor hex of
        Inl e \<Rightarrow> Inl e
      | Inr color \<Rightarrow>
          (case getColorCache rest of
             Inl e \<Rightarrow> Inl e
           | Inr entries \<Rightarrow> Inr (\<lparr>ce_hex = hex, ce_name = name, ce_color = color\<rparr> # entries)))"

record Tables =
  HUE_FAMILIES :: "(string \<times> real \<times> real) list"
  LIGHTNESS_MODIFIERS :: "(real \<times> real \<times> string) list"
  CHROMA_MODIFIERS :: "(real \<times> real \<times> string) list"

text \<open>The running minimum of the scan; its distance starts at \<open>Infinity\<close>.\<close>

datatype distance = Infinity | Finite real

fun lessDistance :: "real \<Rightarrow> distance \<Rightarrow> bool" where
  "lessDistance d Infinity = True"
| "lessDistance d (Finite e) = (d < e)"

fun distanceBelow :: "distance \<Rightarrow> real \<Rightarrow> bool" where
  "distanceBelow Infinity t = False"
| "distanceBelow (Finite e) t = (e < t)"

record Nearest =
  nearest_name :: string
  nearest_distance :: distance

fun findNearestLoop :: "NormalizedColor \<Rightarrow> ColorEntry list \<Rightarrow> Nearest \<Rightarrow> Nearest" where
  "findNearestLoop color [] nearest = nearest"
| "findNearestLoop color (entry # cache) nearest =
     (let dist = colorDistance (nc_oklab color) (nc_oklab (ce_color entry))
      in if lessDistance dist (nearest_distance nearest)
         then findNearestLoop color cache \<lparr>nearest_name = ce_name entry, nearest_distance = Finite dist\<rparr>
         else findNearestLoop color cache nearest)"

definition findNearestColor :: "ColorEntry list \<Rightarrow> NormalizedColor \<Rightarrow> Nearest" where
  "findNearestColor cache color =
     findNearestLoop color cache \<lparr>nearest_name = ''Unknown'', nearest_distance = Infinity\<rparr>"

text \<open>\<open>String.prototype.replace\<close> with a one-character pattern: the first occurrence goes.\<close>

fun removeFirst :: "char \<Rightarrow> string \<Rightarrow> string" where
  "removeFirst c [] = []"
| "removeFirst c (x # xs) = (if x = c then xs else x # removeFirst c xs)"

fun getHueFamilyLoop :: "(string \<times> real \<times> real) list \<Rightarrow> real \<Rightarrow> string" where
  "getHueFamilyLoop [] hue = ''Red''"
| "getHueFamilyLoop ((family, start, end) # rest) hue =
     (if hue \<ge> start \<and> hue < end then removeFirst CHR ''2'' family
      else getHueFamilyLoop rest hue)"

definition getHueFamily :: "Tables \<Rightarrow> real \<Rightarrow> string" where
  "getHueFamily T hue = getHueFamilyLoop (HUE_FAMILIES T) hue"

fun modifierLoop :: "(real \<times> real \<times> string) list \<Rightarrow> real \<Rightarrow> string" where
  "modifierLoop [] v = []"
| "modifierLoop ((lo, hi, modifier) # rest) v =
     (if v \<ge> lo \<and> v < hi then modifier else modifierLoop rest v)"

definition getLightnessModifier :: "Tables \<Rightarrow> real \<Rightarrow> string" where
  "getLightnessModifier T L = modifierLoop (LIGHTNESS_MODIFIERS T) L"

definition getChromaModifier :: "Tables \<Rightarrow> real \<Rightarrow> string" where
  "getChromaModifier T C = modifierLoop (CHROMA_MODIFIERS T) C"

text \<open>\<open>Array.prototype.join\<close> with a separator.\<close>

fun join :: "string \<Rightarrow> string list \<Rightarrow> string" where
  "join sep [] = []"
| "join sep [x] = x"
| "join sep (x # y # ys) = x @ sep @ join sep (y # ys)"

definition generateFallbackName :: "Tables \<Rightarrow> NormalizedColor \<Rightarrow> string" where
  "generateFallbackName T color =
     (let L = oklch_L (nc_oklch color);
          C = oklch_C (nc_oklch color);
          h = oklch_h (nc_oklch color)
      in if C < 0.02 then
           (if L < 0.15 then ''Black''
            else if L > 0.95 then ''White''
            else (let lMod = getLightnessModifier T L
                  in if lMod \<noteq> [] then lMod @ '' Gray'' else ''Gray''))
         else
           (let hueFamily = getHueFamily T h;
                lightMod = getLightnessModifier T L;
                chromaMod = getChromaModifier T C;
                parts = (if lightMod \<noteq> [] then [lightMod] else [])
                      @ (if chromaMod \<noteq> [] \<and> chromaMod \<noteq> ''Gray'' then [chromaMod] else [])
                      @ [hueFamily]
            in join '' '' parts))"

definition MATCH_THRESHOLD :: real where
  "MATCH_THRESHOLD = 0.15"

text \<open>
  \<open>providedNames\<close> is an optional object; it is modelled by the list of its own entries in the
  order \<open>Object.entries\<close> enumerates them, \<open>None\<close> when the argument is absent. The indexed read
  \<open>providedNames[normalized]\<close> is \<open>map_of\<close>, and a name read that way counts only when it is
  truthy, that is, not the empty string. The read looks up the upper-cased hex string, which
  has no lower-case letter, so no property inherited from \<open>Object.prototype\<close> answers it.
\<close>

fun entriesLoop :: "(string \<times> string) list \<Rightarrow> string \<Rightarrow> string option" where
  "entriesLoop [] normalized = None"
| "entriesLoop ((key, val) # rest) normalized =
     (if toUpperCase key = normalized then Some val else entriesLoop rest normalized)"

definition providedLookup :: "(string \<times> string) list \<Rightarrow> NormalizedColor \<Rightarrow> string option" where
  "providedLookup providedNames color =
     (let normalized = toUpperCase (nc_hex color)
      in case map_of providedNames normalized of
           Some v \<Rightarrow> (if v \<noteq> [] then Some v else entriesLoop providedNames normalized)
         | None \<Rightarrow> entriesLoop providedNames normalized)"

definition autoName :: "Tables \<Rightarrow> ColorEntry list \<Rightarrow> NormalizedColor \<Rightarrow> string" where
  "autoName T cache color =
     (let nearest = findNearestColor cache color
      in if distanceBelow (nearest_distance nearest) MATCH_THRESHOLD then nearest_name nearest
         else generateFallbackName T color)"

definition nameColor ::
  "Tables \<Rightarrow> ColorEntry list \<Rightarrow> NormalizedColor \<Rightarrow> NamingStrategy \<Rightarrow>
     (string \<times> string) list option \<Rightarrow> string" where
  "nameColor T cache color strategy providedNames =
     (if strategy = StrategyNone then []
      else case (if strategy = StrategyProvided
                 then (case providedNames of None \<Rightarrow> None | Some pn \<Rightarrow> providedLookup pn color)
                 else None) of
             Some v \<Rightarrow> v
           | None \<Rightarrow> autoName T cache color)"

text \<open>\<open>nameCounts.get(baseName) || 0\<close>\<close>

definition getCount :: "(string \<rightharpoonup> nat) \<Rightarrow> string \<Rightarrow> nat" where
  "getCount nameCounts baseName = (case nameCounts baseName of None \<Rightarrow> 0 | Some n \<Rightarrow> n)"

fun nameCountsLoop :: "string list \<Rightarrow> (string \<rightharpoonup> nat) \<Rightarrow> string list" where
  "nameCountsLoop [] nameCounts = []"
| "nameCountsLoop (baseName # names) nameCounts =
     (if baseName = [] then [] # nameCountsLoop names nameCounts
      else (let count = getCount nameCounts baseName;
                nameCounts' = nameCounts(baseName \<mapsto> count + 1)
            in (if count = 0 then baseName else baseName @ '' '' @ natToString 10 (count + 1))
               # nameCountsLoop names nameCounts'))"

definition nameColors ::
  "Tables \<Rightarrow> ColorEntry list \<Rightarrow> NormalizedColor list \<Rightarrow> NamingStrategy \<Rightarrow>
     (string \<times> string) list option \<Rightarrow> string list" where
  "nameColors T cache colors strategy providedNames =
     nameCountsLoop (map (\<lambda>c. nameColor T cache c strategy providedNames) colors) Map.empty"

section \<open>Notions used to state the properties\<close>

text \<open>The distance the scan computes between the queried color and one cache entry.\<close>

definition entryDistance :: "NormalizedColor \<Rightarrow> ColorEntry \<Rightarrow> real" where
  "entryDistance color entry = colorDistance (nc_oklab color) (nc_oklab (ce_color entry))"

text \<open>What the uniqueness pass emits for the \<open>k\<close>-th occurrence of a base name.\<close>

definition suffixed :: "string \<Rightarrow> nat \<Rightarrow> string" where
  "suffixed baseName k =
     (if baseName = [] then [] else if k = 1 then baseName
      else baseName @ '' '' @ natToString 10 k)"

text \<open>Sample data: a color given by its hex string and OKLab lightness, and small tables.\<close>

definition sampleColor :: "string \<Rightarrow> real \<Rightarrow> NormalizedColor" where
  "sampleColor hex L =
     \<lparr>nc_input = hex,
      nc_rgba = \<lparr>rgba_r = 0, rgba_g = 0, rgba_b = 0, rgba_a = 1\<rparr>,
      nc_hex = hex,
      nc_hsla = \<lparr>hsla_h = 0, hsla_s = 0, hsla_l = 0, hsla_a = 1\<rparr>,
      nc_oklab = \<lparr>oklab_L = L, oklab_a = 0, oklab_b = 0\<rparr>,
      nc_oklch = \<lparr>oklch_L = L, oklch_C = 0, oklch_h = 0\<rparr>\<rparr>"

definition sampleEntry :: "string \<Rightarrow> string \<Rightarrow> real \<Rightarrow> ColorEntry" where
  "sampleEntry hex name L = \<lparr>ce_hex = hex, ce_name = name, ce_color = sampleColor hex L\<rparr>"

definition sampleTables :: Tables where
  "sampleTables =
     \<lparr>HUE_FAMILIES = [(''Red'', 0, 30), (''Green'', 30, 200), (''Blue'', 200, 330), (''Red2'', 330, 360)],
      LIGHTNESS_MODIFIERS = [(0, 0.3, ''Dark''), (0.7, 1.01, ''Light'')],
      CHROMA_MODIFIERS = [(0, 0.05, ''Gray''), (0.2, 1, ''Vivid'')]\<rparr>"

text \<open>The channels of an RGBA value lie between 0 and 255.\<close>

definition channelsInRange :: "RGBA \<Rightarrow> bool" where
  "channelsInRange c =
     (0 \<le> rgba_r c \<and> rgba_r c \<le> 255 \<and> 0 \<le> rgba_g c \<and> rgba_g c \<le> 255 \<and>
      0 \<le> rgba_b c \<and> rgba_b c \<le> 255)"

text \<open>The upper-case digit of a value below 16, as \<open>toHex\<close> writes it.\<close>

definition hexChar :: "nat \<Rightarrow> char" where
  "hexChar i = upperChar (digitChar i)"

text \<open>
  What the three parsers return: channels that are integers from -15 to 255 (a negative one
  comes from a pair such as \<open>-F\<close> in a hex string), and an alpha of at most 1 whose multiple
  by 255 rounds to -15 or more.
\<close>

definition hexChannel :: "real \<Rightarrow> bool" where
  "hexChannel x = (\<exists>n::int. x = of_int n \<and> - 15 \<le> n \<and> n \<le> 255)"

definition parsedRgba :: "RGBA \<Rightarrow> bool" where
  "parsedRgba rgba =
     (hexChannel (rgba_r rgba) \<and> hexChannel (rgba_g rgba) \<and> hexChannel (rgba_b rgba) \<and>
      rgba_a rgba \<le> 1 \<and> - 15 \<le> \<lfloor>rgba_a rgba * 255 + 1 / 2\<rfloor>)"

text \<open>The hex string of a normalized input, when the input parses.\<close>

definition normalizedHex :: "string \<Rightarrow> string option" where
  "normalizedHex input = (case normalizeColor input of Inl e \<Rightarrow> None | Inr nc \<Rightarrow> Some (nc_hex nc))"

text \<open>
  The strings a regular expression can consume, without regard to the order in which the
  engine tries them; the end of the input consumes nothing.
\<close>

fun lang :: "regex \<Rightarrow> string set" where
  "lang (OneOf cs) = {[c] |c. c \<in> set cs}"
| "lang (Seq a b) = {u @ v |u v. u \<in> lang a \<and> v \<in> lang b}"
| "lang (Alt a b) = lang a \<union> lang b"
| "lang (Opt a) = insert [] (lang a)"
| "lang (Many cs lo hi) =
     {w. set w \<subseteq> set cs \<and> lo \<le> length w \<and> (case hi of None \<Rightarrow> True | Some h \<Rightarrow> length w \<le> h)}"
| "lang (Group i a) = lang a"
| "lang EndOfInput = {[]}"

text \<open>
  A string in the form of a call: a name, an opening parenthesis, blanks, and three
  components with separators between them, then the rest. A component is a token, a
  non-empty string without a delimiter; a separator is a non-empty string of blanks and
  commas; the rest is empty or begins with a delimiter, so that the third token ends there.
\<close>

definition delimiters :: string where
  "delimiters = whiteSpace @ '',/()''"

definition isToken :: "string \<Rightarrow> bool" where
  "isToken t = (t \<noteq> [] \<and> (\<forall>c\<in>set t. c \<notin> set delimiters))"

definition isSeparator :: "string \<Rightarrow> bool" where
  "isSeparator s = (s \<noteq> [] \<and> set s \<subseteq> set (CHR '','' # whiteSpace))"

definition callString ::
  "string \<Rightarrow> string \<Rightarrow> string \<Rightarrow> string \<Rightarrow> string \<Rightarrow> string \<Rightarrow> string \<Rightarrow> string \<Rightarrow> string" where
  "callString name blanks c1 s1 c2 s2 c3 rest = name @ ''('' @ blanks @ c1 @ s1 @ c2 @ s2 @ c3 @ rest"

definition wellFormedCall ::
  "string \<Rightarrow> string \<Rightarrow> string \<Rightarrow> string \<Rightarrow> string \<Rightarrow> string \<Rightarrow> string \<Rightarrow> string \<Rightarrow> bool" where
  "wellFormedCall name blanks c1 s1 c2 s2 c3 rest =
     (CHR ''('' \<notin> set name \<and> set blanks \<subseteq> set whiteSpace \<and>
      isToken c1 \<and> isSeparator s1 \<and> isToken c2 \<and> isSeparator s2 \<and> isToken c3 \<and>
      (rest = [] \<or> hd rest \<in> set delimiters))"

text \<open>A component with a leading sign, or with more than three integer digits.\<close>

definition signedOrLong :: "string \<Rightarrow> bool" where
  "signedOrLong t =
     (t \<noteq> [] \<and> (hd t = CHR ''+'' \<or> hd t = CHR ''-'')
      \<or> 4 \<le> length t \<and> (\<forall>c\<in>set (take 4 t). isDigit c))"

text \<open>The groups that take part in every match of a regular expression.\<close>

fun definiteGroups :: "regex \<Rightarrow> nat set" where
  "definiteGroups (OneOf cs) = {}"
| "definiteGroups (Seq a b) = definiteGroups a \<union> definiteGroups b"
| "definiteGroups (Alt a b) = definiteGroups a \<inter> definiteGroups b"
| "definiteGroups (Opt a) = {}"
| "definiteGroups (Many cs lo hi) = {}"
| "definiteGroups (Group i a) = insert i (definiteGroups a)"
| "definiteGroups EndOfInput = {}"

section \<open>Evaluation of the parsers on given strings\<close>

lemmas string_eval = toUpperCase_def upperChar_def lowerLetters_def upperLetters_def
  natToString.simps digitChar_def

lemmas builtin_eval = whiteSpace_def isWhiteSpace_def decimalDigits_def isDigit_def hexDigits_def
  isHexDigit_def digitValue_def digitsValue_def trim_def startsWith_def endsWith_def
  parseInt16_def parseFloat_def intToString16_def padStart2_def lowerChar_def toLowerCase_def
  regexMatch_def literalIgnoreCase_def Let_def

lemmas regex_eval = spaces_def separator_def shortNumber_def component_def alphaPart_def
  rgbRegex_def hueComponent_def hslRegex_def bareHexRegex_def group_def

lemmas parse_eval = makeRgba_def parseHex_def parseComponent_def clampChannel_def parseAlpha_def
  parseRgb_def hueToRgb_def parsePercent_def parseHue_def hslToRgba_def parseHsl_def
  parseColor_def toHex_def rgbaToHex_def Math_round_def jsRemainder_def

section \<open>Properties of the conversion to HSLA\<close>

lemma Math_round_bounds:
  assumes "0 \<le> x" "x \<le> of_int N"
  shows "0 \<le> Math_round x \<and> Math_round x \<le> of_int N \<and> Math_round x \<in> \<int>"
proof -
  have "\<lfloor>x + 1 / 2\<rfloor> \<le> N" using assms(2) by linarith
  moreover have "0 \<le> \<lfloor>x + 1 / 2\<rfloor>" using assms(1) by simp
  ultimately show ?thesis by (simp add: Math_round_def)
qed

lemma quotient_unit:
  fixes x den :: real
  assumes "0 < den" "0 \<le> x" "x \<le> den"
  shows "0 \<le> x / den \<and> x / den \<le> 1"
  using assms by simp

lemma quotient_signed_unit:
  fixes x d :: real
  assumes "0 < d" "- d \<le> x" "x \<le> d"
  shows "- 1 \<le> x / d \<and> x / d \<le> 1"
  using assms by (simp add: pos_le_divide_eq)

lemma quotient_neg:
  fixes x d :: real
  assumes "0 < d" "x < 0"
  shows "x / d < 0"
  using assms by (simp add: divide_neg_pos)

lemma quotient_nonneg:
  fixes x d :: real
  assumes "0 < d" "0 \<le> x"
  shows "0 \<le> x / d"
  using assms by simp

lemma hsl_raw_bounds:
  fixes r g b :: real
  assumes r: "0 \<le> r" "r \<le> 1" and g: "0 \<le> g" "g \<le> 1" and b: "0 \<le> b" "b \<le> 1"
  defines "mx \<equiv> max r (max g b)" and "mn \<equiv> min r (min g b)"
  defines "l \<equiv> (mx + mn) / 2" and "d \<equiv> mx - mn"
  defines "s \<equiv> (if mx \<noteq> mn then (if l > 0.5 then d / (2 - mx - mn) else d / (mx + mn)) else 0)"
  defines "h \<equiv> (if mx \<noteq> mn then
                 (if mx = r then ((g - b) / d + (if g < b then 6 else 0)) / 6
                  else if mx = g then ((b - r) / d + 2) / 6
                  else if mx = b then ((r - g) / d + 4) / 6
                  else 0)
               else 0)"
  shows "0 \<le> l \<and> l \<le> 1" and "0 \<le> s \<and> s \<le> 1" and "0 \<le> h \<and> h < 1"
proof -
  have mx: "0 \<le> mx" "mx \<le> 1" "r \<le> mx" "g \<le> mx" "b \<le> mx"
    using r g b by (auto simp: mx_def)
  have mn: "0 \<le> mn" "mn \<le> 1" "mn \<le> r" "mn \<le> g" "mn \<le> b" "mn \<le> mx"
    using r g b by (auto simp: mn_def mx_def)
  show "0 \<le> l \<and> l \<le> 1" using mx mn by (simp add: l_def)
  show "0 \<le> s \<and> s \<le> 1"
  proof (cases "mx = mn")
    case True
    then show ?thesis by (simp add: s_def)
  next
    case False
    with mn have lt: "mn < mx" by simp
    show ?thesis
    proof (cases "l > 0.5")
      case True
      have "0 < 2 - mx - mn" using lt mx by linarith
      moreover have "0 \<le> d" "d \<le> 2 - mx - mn" using lt mx by (simp_all add: d_def)
      ultimately have "0 \<le> d / (2 - mx - mn) \<and> d / (2 - mx - mn) \<le> 1"
        by (rule quotient_unit)
      with True False show ?thesis by (simp add: s_def)
    next
      case nl: False
      have "0 < mx + mn" using lt mn by linarith
      moreover have "0 \<le> d" "d \<le> mx + mn" using lt mn by (simp_all add: d_def)
      ultimately have "0 \<le> d / (mx + mn) \<and> d / (mx + mn) \<le> 1"
        by (rule quotient_unit)
      with nl False show ?thesis by (simp add: s_def)
    qed
  qed
  show "0 \<le> h \<and> h < 1"
  proof (cases "mx = mn")
    case True
    then show ?thesis by (simp add: h_def)
  next
    case False
    with mn have d: "0 < d" by (simp add: d_def)
    have gb: "- 1 \<le> (g - b) / d \<and> (g - b) / d \<le> 1"
      using d mx mn by (intro quotient_signed_unit) (simp_all add: d_def)
    have br: "- 1 \<le> (b - r) / d \<and> (b - r) / d \<le> 1"
      using d mx mn by (intro quotient_signed_unit) (simp_all add: d_def)
    have rg: "- 1 \<le> (r - g) / d \<and> (r - g) / d \<le> 1"
      using d mx mn by (intro quotient_signed_unit) (simp_all add: d_def)
    have "mx = r \<or> mx = g \<or> mx = b"
      by (simp add: mx_def max_def)
    then consider (r) "mx = r" | (g) "mx \<noteq> r" "mx = g" | (b) "mx \<noteq> r" "mx \<noteq> g" "mx = b"
      by blast
    then show ?thesis
    proof cases
      case r
      show ?thesis
      proof (cases "g < b")
        case True
        then have "(g - b) / d < 0" using d by (intro quotient_neg) simp_all
        with gb True r False show ?thesis by (simp add: h_def)
      next
        case nlt: False
        then have "0 \<le> (g - b) / d" using d by (intro quotient_nonneg) simp_all
        with gb nlt r False show ?thesis by (simp add: h_def)
      qed
    next
      case g
      with br False show ?thesis by (simp add: h_def)
    next
      case b
      with rg False show ?thesis by (simp add: h_def)
    qed
  qed
qed

section \<open>Properties of the hex parser\<close>

lemma parseHex_other_lengths:
  assumes "length (if hex \<noteq> [] \<and> hd hex = CHR ''#'' then tl hex else hex) \<notin> {3, 4, 6, 8}"
  shows "parseHex hex = None"
  using assms by (cases hex) (auto simp: parseHex_def Let_def)

section \<open>The hex string of a parsed color parses back\<close>

lemma hexChar_all:
  "\<forall>i\<in>set [0..<16]. isHexDigit (hexChar i) \<and> \<not> isWhiteSpace (hexChar i) \<and> hexChar i \<noteq> CHR ''+''
     \<and> hexChar i \<noteq> CHR ''-'' \<and> hexChar i \<noteq> CHR ''x'' \<and> hexChar i \<noteq> CHR ''X''
     \<and> hexChar i \<noteq> CHR ''#'' \<and> digitValue (hexChar i) = i"
  by code_simp

lemma hexChar_facts:
  assumes "i < 16"
  shows "isHexDigit (hexChar i)" "\<not> isWhiteSpace (hexChar i)" "hexChar i \<noteq> CHR ''+''"
    "hexChar i \<noteq> CHR ''-''" "hexChar i \<noteq> CHR ''x''" "hexChar i \<noteq> CHR ''X''"
    "hexChar i \<noteq> CHR ''#''" "digitValue (hexChar i) = i"
  using assms hexChar_all by auto

lemma toHex_nat:
  assumes "n \<le> 255"
  shows "toUpperCase (padStart2 (natToString 16 n)) = [hexChar (n div 16), hexChar (n mod 16)]"
proof (cases "n < 16")
  case True
  then have "natToString 16 n = [digitChar n]" by (simp add: natToString.simps)
  moreover have "upperChar CHR ''0'' = hexChar 0" by (simp add: hexChar_def string_eval)
  ultimately show ?thesis using True
    by (simp add: padStart2_def toUpperCase_def hexChar_def)
next
  case False
  with assms have d: "n div 16 < 16" by simp
  have "natToString 16 n = natToString 16 (n div 16) @ [digitChar (n mod 16)]"
    using False by (subst natToString.simps) simp
  also have "natToString 16 (n div 16) = [digitChar (n div 16)]"
    using d by (simp add: natToString.simps)
  finally show ?thesis
    by (simp add: padStart2_def toUpperCase_def hexChar_def)
qed

lemma toHex_negative:
  assumes "k < 16"
  shows "toUpperCase (padStart2 (CHR ''-'' # natToString 16 k)) = [CHR ''-'', hexChar k]"
proof -
  have "natToString 16 k = [digitChar k]" using assms by (simp add: natToString.simps)
  moreover have "upperChar CHR ''-'' = CHR ''-''" by (simp add: string_eval)
  ultimately show ?thesis
    by (simp add: padStart2_def toUpperCase_def hexChar_def)
qed

lemma digitsValue_pair: "digitsValue 16 [x, y] = 16 * digitValue x + digitValue y"
  by (simp add: digitsValue_def)

lemma parseInt16_pair:
  assumes "a < 16" "b < 16"
  shows "parseInt16 [hexChar a, hexChar b] = Some (int (16 * a + b))"
  using hexChar_facts [OF assms(1)] hexChar_facts [OF assms(2)]
  by (simp add: parseInt16_def startsWith_def Let_def digitsValue_pair)

lemma parseInt16_negative:
  assumes "a < 16"
  shows "parseInt16 [CHR ''-'', hexChar a] = Some (- int a)"
proof -
  have "\<not> isWhiteSpace CHR ''-''" by (simp add: builtin_eval)
  then show ?thesis
    using hexChar_facts [OF assms]
    by (simp add: parseInt16_def startsWith_def Let_def digitsValue_def)
qed

lemma toHex_of_int: "toHex (of_int n) = toUpperCase (padStart2 (intToString16 n))"
proof -
  have "\<lfloor>real_of_int n + 1 / 2\<rfloor> = n" by linarith
  then show ?thesis by (simp add: toHex_def)
qed

lemma toHex_roundtrip:
  assumes "- 15 \<le> n" "n \<le> 255"
  shows "\<exists>x y. toHex (of_int n) = [x, y] \<and> parseInt16 [x, y] = Some n
           \<and> \<not> isWhiteSpace y"
proof (cases "n < 0")
  case True
  with assms have k: "nat (- n) < 16" by simp
  have "toHex (of_int n) = [CHR ''-'', hexChar (nat (- n))]"
    using True toHex_negative [OF k] by (simp add: toHex_of_int intToString16_def)
  moreover have "parseInt16 [CHR ''-'', hexChar (nat (- n))] = Some n"
    using True parseInt16_negative [OF k] by simp
  ultimately show ?thesis using hexChar_facts(2) [OF k] by blast
next
  case False
  define m where "m = nat n"
  with False assms have m: "m \<le> 255" "n = int m" by simp_all
  then have d: "m div 16 < 16" "m mod 16 < 16" by simp_all
  have "toHex (of_int n) = [hexChar (m div 16), hexChar (m mod 16)]"
    using False toHex_nat [OF m(1)] by (simp add: toHex_of_int intToString16_def m_def)
  moreover have "parseInt16 [hexChar (m div 16), hexChar (m mod 16)] = Some n"
    using parseInt16_pair [OF d] m(2) by simp
  ultimately show ?thesis using hexChar_facts(2) [OF d(2)] by blast
qed

lemma trim_hex:
  assumes "\<not> isWhiteSpace y"
  shows "trim (CHR ''#'' # xs @ [y]) = CHR ''#'' # xs @ [y]"
proof -
  have "\<not> isWhiteSpace CHR ''#''" by (simp add: builtin_eval)
  with assms show ?thesis by (simp add: trim_def)
qed

lemma reparse_hex:
  assumes "parsedRgba rgba"
  shows "parseColor (rgbaToHex rgba) =
           Some \<lparr>rgba_r = rgba_r rgba, rgba_g = rgba_g rgba, rgba_b = rgba_b rgba,
                 rgba_a = (if rgba_a rgba < 1 then of_int \<lfloor>rgba_a rgba * 255 + 1 / 2\<rfloor> / 255 else 1)\<rparr>"
proof -
  from assms obtain nr ng nb :: int where
    r: "rgba_r rgba = of_int nr" "- 15 \<le> nr" "nr \<le> 255" and
    g: "rgba_g rgba = of_int ng" "- 15 \<le> ng" "ng \<le> 255" and
    b: "rgba_b rgba = of_int nb" "- 15 \<le> nb" "nb \<le> 255"
    by (auto simp: parsedRgba_def hexChannel_def)
  from toHex_roundtrip [OF r(2,3)] obtain x1 y1 where
    1: "toHex (rgba_r rgba) = [x1, y1]" "parseInt16 [x1, y1] = Some nr"
    using r(1) by auto
  from toHex_roundtrip [OF g(2,3)] obtain x2 y2 where
    2: "toHex (rgba_g rgba) = [x2, y2]" "parseInt16 [x2, y2] = Some ng"
    using g(1) by auto
  from toHex_roundtrip [OF b(2,3)] obtain x3 y3 where
    3: "toHex (rgba_b rgba) = [x3, y3]" "parseInt16 [x3, y3] = Some nb" "\<not> isWhiteSpace y3"
    using b(1) by auto
  show ?thesis
  proof (cases "rgba_a rgba < 1")
    case False
    then have hex: "rgbaToHex rgba = CHR ''#'' # [x1, y1, x2, y2, x3] @ [y3]"
      by (simp add: rgbaToHex_def Let_def 1 2 3)
    have "parseColor (rgbaToHex rgba) = parseHex (CHR ''#'' # [x1, y1, x2, y2, x3] @ [y3])"
      unfolding hex parseColor_def Let_def trim_hex [OF 3(3)] by (simp add: startsWith_def)
    also have "\<dots> = Some \<lparr>rgba_r = of_int nr, rgba_g = of_int ng, rgba_b = of_int nb, rgba_a = 1\<rparr>"
      by (simp add: parseHex_def Let_def makeRgba_def 1 2 3)
    finally show ?thesis using False r g b by simp
  next
    case True
    define k where "k = \<lfloor>rgba_a rgba * 255 + 1 / 2\<rfloor>"
    have "k \<le> 255" using True unfolding k_def by linarith
    moreover have "- 15 \<le> k" using assms by (simp add: parsedRgba_def k_def)
    ultimately obtain x4 y4 where
      4: "toHex (of_int k) = [x4, y4]" "parseInt16 [x4, y4] = Some k" "\<not> isWhiteSpace y4"
      using toHex_roundtrip [of k] by auto
    have "toHex (rgba_a rgba * 255) = toHex (of_int k)"
      by (simp add: toHex_def k_def)
    then have hex: "rgbaToHex rgba = CHR ''#'' # [x1, y1, x2, y2, x3, y3, x4] @ [y4]"
      using True by (simp add: rgbaToHex_def Let_def 1 2 3 4)
    have "parseColor (rgbaToHex rgba) = parseHex (CHR ''#'' # [x1, y1, x2, y2, x3, y3, x4] @ [y4])"
      unfolding hex parseColor_def Let_def trim_hex [OF 4(3)] by (simp add: startsWith_def)
    also have "\<dots> = Some \<lparr>rgba_r = of_int nr, rgba_g = of_int ng, rgba_b = of_int nb,
                            rgba_a = of_int k / 255\<rparr>"
      by (simp add: parseHex_def Let_def makeRgba_def 1 2 3 4)
    finally show ?thesis using True r g b by (simp add: k_def)
  qed
qed

lemma rehex:
  assumes "rgba_a rgba < 1 \<longrightarrow> rgba_a rgba * 255 < 254.5"
  shows "rgbaToHex \<lparr>rgba_r = rgba_r rgba, rgba_g = rgba_g rgba, rgba_b = rgba_b rgba,
                 rgba_a = (if rgba_a rgba < 1 then of_int \<lfloor>rgba_a rgba * 255 + 1 / 2\<rfloor> / 255 else 1)\<rparr>
         = rgbaToHex rgba"
proof (cases "rgba_a rgba < 1")
  case False
  then show ?thesis by (simp add: rgbaToHex_def Let_def)
next
  case True
  define k where "k = \<lfloor>rgba_a rgba * 255 + 1 / 2\<rfloor>"
  from True assms have "rgba_a rgba * 255 + 1 / 2 < 255" by simp
  then have "k < 255" unfolding k_def by linarith
  then have lt: "real_of_int k / 255 < 1" by simp
  have "toHex (real_of_int k / 255 * 255) = toHex (rgba_a rgba * 255)"
    by (simp add: toHex_def k_def)
  with True lt show ?thesis
    by (simp add: rgbaToHex_def Let_def k_def [symmetric])
qed

subsection \<open>What the parsers return\<close>

lemma digitValue_le: "digitValue c \<le> 15"
proof -
  have "\<forall>d\<in>set [0, 1, 2, 3, 4, 5, 6, 7, 8, 9, 10, 11, 12, 13, 14, 15::nat]. d \<le> 15" by simp
  moreover have "map_of (zip ''0123456789abcdef'' [0, 1, 2, 3, 4, 5, 6, 7, 8, 9, 10, 11, 12, 13, 14, 15::nat]) k = Some d
    \<Longrightarrow> d \<in> set [0, 1, 2, 3, 4, 5, 6, 7, 8, 9, 10, 11, 12, 13, 14, 15::nat]" for k d
    by (drule map_of_SomeD) (auto dest: set_zip_rightD)
  ultimately show ?thesis
    unfolding digitValue_def by (auto split: option.splits)
qed

lemma foldl_digits_bound:
  "foldl (\<lambda>acc c. 16 * acc + digitValue c) a ds < 16 ^ length ds * (a + 1)"
proof (induction ds arbitrary: a)
  case Nil
  show ?case by simp
next
  case (Cons c ds)
  have "foldl (\<lambda>acc c. 16 * acc + digitValue c) (16 * a + digitValue c) ds
          < 16 ^ length ds * (16 * a + digitValue c + 1)"
    by (rule Cons.IH)
  also have "\<dots> \<le> 16 ^ length ds * (16 * (a + 1))"
  proof (rule mult_le_mono2)
    show "16 * a + digitValue c + 1 \<le> 16 * (a + 1)"
      using digitValue_le [of c] by simp
  qed
  finally show ?case by (simp add: algebra_simps)
qed

lemma digitsValue_bound: "digitsValue 16 ds < 16 ^ length ds"
  using foldl_digits_bound [of 0 ds] by (simp add: digitsValue_def)

lemma parseInt16_range:
  assumes "length s \<le> 2" "parseInt16 s = Some n"
  shows "- 15 \<le> n \<and> n \<le> 255"
proof -
  define s1 where "s1 = dropWhile isWhiteSpace s"
  define negative where "negative = (s1 \<noteq> [] \<and> hd s1 = CHR ''-'')"
  define s2 where "s2 = (if s1 \<noteq> [] \<and> (hd s1 = CHR ''+'' \<or> hd s1 = CHR ''-'') then tl s1 else s1)"
  define s3 where "s3 = (if startsWith s2 ''0x'' \<or> startsWith s2 ''0X'' then drop 2 s2 else s2)"
  define ds where "ds = takeWhile isHexDigit s3"
  have n: "n = (if negative then - int (digitsValue 16 ds) else int (digitsValue 16 ds))"
    using assms(2)
    unfolding parseInt16_def Let_def s1_def [symmetric] negative_def [symmetric]
      s2_def [symmetric] s3_def [symmetric] ds_def [symmetric]
    by (simp split: if_splits)
  have l1: "length s1 \<le> 2"
    using assms(1) length_dropWhile_le [of isWhiteSpace s] by (simp add: s1_def)
  have l2: "length s2 \<le> 2" "negative \<Longrightarrow> length s2 \<le> 1"
    using l1 by (auto simp: s2_def negative_def)
  have l3: "length s3 \<le> length s2" by (simp add: s3_def)
  have l4: "length ds \<le> length s3" by (simp add: ds_def length_takeWhile_le)
  show ?thesis
  proof (cases negative)
    case True
    with l2 l3 l4 have "length ds \<le> 1" by simp
    then have "(16::nat) ^ length ds \<le> 16 ^ 1" by (intro power_increasing) simp_all
    with digitsValue_bound [of ds] have "digitsValue 16 ds < 16" by simp
    with True n show ?thesis by simp
  next
    case False
    from l2 l3 l4 have "length ds \<le> 2" by simp
    then have "(16::nat) ^ length ds \<le> 16 ^ 2" by (intro power_increasing) simp_all
    with digitsValue_bound [of ds] have "digitsValue 16 ds < 256" by simp
    with False n show ?thesis by simp
  qed
qed

lemma hexChannel_parseInt16:
  assumes "length s \<le> 2" "map_option real_of_int (parseInt16 s) = Some x"
  shows "hexChannel x"
  using assms parseInt16_range [of s] by (auto simp: hexChannel_def)

lemma alpha_parseInt16:
  assumes "length s \<le> 2" "map_option (\<lambda>n. real_of_int n / 255) (parseInt16 s) = Some a"
  shows "a \<le> 1 \<and> - 15 \<le> \<lfloor>a * 255 + 1 / 2\<rfloor>"
proof (cases "parseInt16 s")
  case None
  with assms(2) show ?thesis by simp
next
  case (Some n)
  with assms(2) have a: "a = real_of_int n / 255" by simp
  from parseInt16_range [OF assms(1) Some] have n: "- 15 \<le> n" "n \<le> 255" by simp_all
  have "a * 255 = real_of_int n" by (simp add: a)
  then have "\<lfloor>a * 255 + 1 / 2\<rfloor> = n" by linarith
  with n a show ?thesis by simp
qed

lemma makeRgba_Some:
  "makeRgba r g b a = Some rgba \<longleftrightarrow>
     r = Some (rgba_r rgba) \<and> g = Some (rgba_g rgba) \<and> b = Some (rgba_b rgba) \<and> a = Some (rgba_a rgba)"
  by (cases rgba) (auto simp: makeRgba_def split: option.splits)

lemma parsedRgba_makeRgba:
  assumes m: "makeRgba r g b alpha = Some rgba"
    and r: "\<exists>s. length s \<le> 2 \<and> r = map_option real_of_int (parseInt16 s)"
    and g: "\<exists>s. length s \<le> 2 \<and> g = map_option real_of_int (parseInt16 s)"
    and b: "\<exists>s. length s \<le> 2 \<and> b = map_option real_of_int (parseInt16 s)"
    and a: "alpha = Some 1 \<or> (\<exists>s. length s \<le> 2 \<and>
           alpha = map_option (\<lambda>n. real_of_int n / 255) (parseInt16 s))"
  shows "parsedRgba rgba"
proof -
  from m have
    r': "r = Some (rgba_r rgba)" and g': "g = Some (rgba_g rgba)" and
    b': "b = Some (rgba_b rgba)" and a': "alpha = Some (rgba_a rgba)"
    by (simp_all add: makeRgba_Some)
  have ch: "hexChannel x" if "\<exists>s. length s \<le> 2 \<and> c = map_option real_of_int (parseInt16 s)"
    and "c = Some x" for c x
  proof -
    from that obtain s where l: "length s \<le> 2" and e: "c = map_option real_of_int (parseInt16 s)"
      by blast
    from e that(2) have "map_option real_of_int (parseInt16 s) = Some x"
      by (rule trans [OF sym])
    with l show ?thesis by (rule hexChannel_parseInt16)
  qed
  have "rgba_a rgba \<le> 1 \<and> - 15 \<le> \<lfloor>rgba_a rgba * 255 + 1 / 2\<rfloor>"
    using a
  proof
    assume "alpha = Some 1"
    with a' show ?thesis by simp
  next
    assume "\<exists>s. length s \<le> 2 \<and> alpha = map_option (\<lambda>n. real_of_int n / 255) (parseInt16 s)"
    then obtain s where l: "length s \<le> 2"
      and e: "alpha = map_option (\<lambda>n. real_of_int n / 255) (parseInt16 s)"
      by blast
    from e a' have "map_option (\<lambda>n. real_of_int n / 255) (parseInt16 s) = Some (rgba_a rgba)"
      by (rule trans [OF sym])
    with l show ?thesis by (rule alpha_parseInt16)
  qed
  with ch [OF r r'] ch [OF g g'] ch [OF b b']
  show ?thesis by (simp add: parsedRgba_def)
qed

lemma parseHex_parsedRgba:
  assumes "parseHex hex = Some rgba"
  shows "parsedRgba rgba"
proof -
  define cleaned where "cleaned = (case hex of [] \<Rightarrow> [] | c # rest \<Rightarrow> (if c = CHR ''#'' then rest else hex))"
  define channel where "channel = (\<lambda>digits. map_option real_of_int (parseInt16 digits))"
  define alpha where "alpha = (\<lambda>digits. map_option (\<lambda>n. real_of_int n / 255) (parseInt16 digits))"
  note p = assms [unfolded parseHex_def Let_def cleaned_def [symmetric],
      folded channel_def alpha_def]
  have ch: "\<exists>s. length s \<le> 2 \<and> channel d = map_option real_of_int (parseInt16 s)"
    if "length d \<le> 2" for d
    using that unfolding channel_def by blast
  have al: "alpha d = Some 1 \<or> (\<exists>s. length s \<le> 2 \<and>
           alpha d = map_option (\<lambda>n. real_of_int n / 255) (parseInt16 s))"
    if "length d \<le> 2" for d
    using that unfolding alpha_def by blast
  have one: "Some (1::real) = Some 1 \<or> (\<exists>s. length s \<le> 2 \<and>
           Some 1 = map_option (\<lambda>n. real_of_int n / 255) (parseInt16 s))"
    by simp
  consider "length cleaned = 3" | "length cleaned = 4" | "length cleaned = 6" | "length cleaned = 8"
    | "length cleaned \<notin> {3, 4, 6, 8}" by auto
  then show ?thesis
  proof cases
    case 1
    with p have "makeRgba (channel [cleaned ! 0, cleaned ! 0]) (channel [cleaned ! 1, cleaned ! 1])
             (channel [cleaned ! 2, cleaned ! 2]) (Some 1) = Some rgba" by (simp add: channel_def alpha_def)
    then show ?thesis by (rule parsedRgba_makeRgba) (simp_all add: ch one)
  next
    case 2
    with p have "makeRgba (channel [cleaned ! 0, cleaned ! 0]) (channel [cleaned ! 1, cleaned ! 1])
             (channel [cleaned ! 2, cleaned ! 2]) (alpha [cleaned ! 3, cleaned ! 3]) = Some rgba" by (simp add: channel_def alpha_def)
    then show ?thesis by (rule parsedRgba_makeRgba) (simp_all add: ch al)
  next
    case 3
    with p have "makeRgba (channel (take 2 cleaned)) (channel (take 2 (drop 2 cleaned)))
             (channel (take 2 (drop 4 cleaned))) (Some 1) = Some rgba" by (simp add: channel_def alpha_def)
    then show ?thesis by (rule parsedRgba_makeRgba) (simp_all add: ch one)
  next
    case 4
    with p have "makeRgba (channel (take 2 cleaned)) (channel (take 2 (drop 2 cleaned)))
             (channel (take 2 (drop 4 cleaned))) (alpha (take 2 (drop 6 cleaned))) = Some rgba" by (simp add: channel_def alpha_def)
    then show ?thesis by (rule parsedRgba_makeRgba) (simp_all add: ch al)
  next
    case 5
    with p show ?thesis by simp
  qed
qed

lemma hexChannel_round:
  assumes "0 \<le> x" "x \<le> 255"
  shows "hexChannel (Math_round x)"
proof -
  have "\<lfloor>x + 1 / 2\<rfloor> \<le> 255" "0 \<le> \<lfloor>x + 1 / 2\<rfloor>" using assms by linarith+
  then show ?thesis unfolding hexChannel_def Math_round_def by (intro exI [of _ "\<lfloor>x + 1 / 2\<rfloor>"]) simp
qed

lemma clampChannel_hexChannel:
  assumes "clampChannel v = Some x"
  shows "hexChannel x"
proof -
  from assms obtain y where x: "x = min 255 (max 0 (Math_round y))"
    by (auto simp: clampChannel_def)
  define k where "k = \<lfloor>y + 1 / 2\<rfloor>"
  have "x = of_int (min 255 (max 0 k))"
    unfolding x Math_round_def k_def [symmetric] by (simp add: min_def max_def)
  then show ?thesis unfolding hexChannel_def by (intro exI [of _ "min 255 (max 0 k)"]) simp
qed

lemma parseAlpha_range:
  assumes "parseAlpha m4 = Some a"
  shows "0 \<le> a \<and> a \<le> 1"
  using assms by (auto simp: parseAlpha_def split: option.splits if_splits)

lemma alpha_unit:
  fixes a :: real
  assumes "0 \<le> a \<and> a \<le> 1"
  shows "a \<le> 1 \<and> - 15 \<le> \<lfloor>a * 255 + 1 / 2\<rfloor>"
proof -
  from assms have "0 \<le> a * 255 + 1 / 2" by simp
  then have "0 \<le> \<lfloor>a * 255 + 1 / 2\<rfloor>" by simp
  with assms show ?thesis by simp
qed

lemma parseRgb_parsedRgba:
  assumes "parseRgb str = Some rgba"
  shows "parsedRgba rgba"
proof (cases "regexMatch rgbRegex str")
  case None
  with assms show ?thesis by (simp add: parseRgb_def)
next
  case (Some m)
  with assms have
    "makeRgba (clampChannel (parseComponent (the (group m 1)) 255))
       (clampChannel (parseComponent (the (group m 2)) 255))
       (clampChannel (parseComponent (the (group m 3)) 255))
       (parseAlpha (group m 4)) = Some rgba"
    by (simp add: parseRgb_def Let_def)
  then have c: "clampChannel (parseComponent (the (group m 1)) 255) = Some (rgba_r rgba)"
    "clampChannel (parseComponent (the (group m 2)) 255) = Some (rgba_g rgba)"
    "clampChannel (parseComponent (the (group m 3)) 255) = Some (rgba_b rgba)"
    "parseAlpha (group m 4) = Some (rgba_a rgba)"
    by (simp_all only: makeRgba_Some)
  from alpha_unit [OF parseAlpha_range [OF c(4)]]
    clampChannel_hexChannel [OF c(1)] clampChannel_hexChannel [OF c(2)]
    clampChannel_hexChannel [OF c(3)]
  show ?thesis by (simp only: parsedRgba_def simp_thms)
qed

lemma jsRemainder_360:
  "- 360 < jsRemainder x 360 \<and> jsRemainder x 360 < 360 \<and> (0 \<le> x \<longrightarrow> 0 \<le> jsRemainder x 360)"
proof -
  define t where "t = x / 360"
  have x: "x = 360 * t" by (simp add: t_def)
  show ?thesis
  proof (cases "0 \<le> t")
    case True
    define u where "u = t - of_int \<lfloor>t\<rfloor>"
    have u: "0 \<le> u" "u < 1" unfolding u_def by linarith+
    have "jsRemainder x 360 = 360 * u"
      using True by (simp add: jsRemainder_def t_def [symmetric] x u_def algebra_simps)
    with u show ?thesis by simp
  next
    case False
    define u where "u = t - of_int \<lceil>t\<rceil>"
    have u: "- 1 < u" "u \<le> 0" unfolding u_def by linarith+
    have "jsRemainder x 360 = 360 * u"
      using False by (simp add: jsRemainder_def t_def [symmetric] x u_def algebra_simps)
    moreover from False have "\<not> 0 \<le> x" by (simp add: x)
    ultimately show ?thesis using u by simp
  qed
qed

lemma parseHue_range:
  assumes "parseHue val = Some h"
  shows "0 \<le> h \<and> h < 360"
proof -
  from assms obtain x where h: "h = jsRemainder (jsRemainder x 360 + 360) 360"
    by (auto simp: parseHue_def Let_def)
  have "0 \<le> jsRemainder x 360 + 360" using jsRemainder_360 [of x] by simp
  with jsRemainder_360 [of "jsRemainder x 360 + 360"] show ?thesis by (simp add: h)
qed

lemma parsePercent_range:
  assumes "parsePercent val = Some p"
  shows "0 \<le> p \<and> p \<le> 100"
  using assms by (auto simp: parsePercent_def)

lemma interpolate:
  fixes p q u :: real
  assumes "p \<le> q" "0 \<le> u" "u \<le> 1"
  shows "p \<le> p + (q - p) * u \<and> p + (q - p) * u \<le> q"
proof -
  have "0 \<le> (q - p) * u" using assms by simp
  moreover have "(q - p) * u \<le> (q - p) * 1" using assms by (intro mult_left_mono) simp_all
  ultimately show ?thesis by simp
qed

lemma hueToRgb_range:
  assumes "p \<le> q" "- 1 \<le> t0" "t0 \<le> 2"
  shows "p \<le> hueToRgb p q t0 \<and> hueToRgb p q t0 \<le> q"
proof -
  define t1 where "t1 = (if t0 < 0 then t0 + 1 else t0)"
  define t where "t = (if t1 > 1 then t1 - 1 else t1)"
  have t: "0 \<le> t" "t \<le> 1" using assms(2,3) by (auto simp: t_def t1_def)
  have eq: "hueToRgb p q t0 =
      (if t < 1 / 6 then p + (q - p) * 6 * t
         else if t < 1 / 2 then q
         else if t < 2 / 3 then p + (q - p) * (2 / 3 - t) * 6
         else p)"
    by (simp add: hueToRgb_def Let_def t_def t1_def)
  consider "t < 1 / 6" | "\<not> t < 1 / 6" "t < 1 / 2" | "\<not> t < 1 / 2" "t < 2 / 3" | "\<not> t < 2 / 3"
    by linarith
  then show ?thesis
  proof cases
    case 1
    with t have "0 \<le> 6 * t" "6 * t \<le> 1" by simp_all
    from interpolate [OF assms(1) this]
    have "p \<le> p + (q - p) * 6 * t \<and> p + (q - p) * 6 * t \<le> q" by (simp only: mult.assoc)
    moreover from 1 have "hueToRgb p q t0 = p + (q - p) * 6 * t" by (simp add: eq)
    ultimately show ?thesis by (simp only:)
  next
    case 2
    with assms(1) show ?thesis by (simp add: eq)
  next
    case 3
    then have "0 \<le> (2 / 3 - t) * 6" "(2 / 3 - t) * 6 \<le> 1" by simp_all
    from interpolate [OF assms(1) this]
    have "p \<le> p + (q - p) * (2 / 3 - t) * 6 \<and> p + (q - p) * (2 / 3 - t) * 6 \<le> q"
      by (simp only: mult.assoc)
    moreover from 3 have "hueToRgb p q t0 = p + (q - p) * (2 / 3 - t) * 6"
      by (simp add: eq)
    ultimately show ?thesis by (simp only:)
  next
    case 4
    with assms(1) show ?thesis by (simp add: eq)
  qed
qed

lemma hsl_pq:
  fixes l s :: real
  assumes "0 \<le> l" "l \<le> 1" "0 \<le> s" "s \<le> 1"
  defines "q \<equiv> (if l < 0.5 then l * (1 + s) else l + s - l * s)"
  defines "p \<equiv> 2 * l - q"
  shows "0 \<le> p \<and> p \<le> q \<and> q \<le> 1"
proof (cases "l < 0.5")
  case True
  have "0 \<le> l * s" using assms by simp
  moreover have "l * s \<le> l * 1" using assms by (intro mult_left_mono) simp_all
  ultimately show ?thesis using True by (simp add: p_def q_def algebra_simps)
next
  case False
  have "0 \<le> s * (1 - l)" using assms by simp
  moreover have "s * (1 - l) \<le> 1 * (1 - l)" using assms by (intro mult_right_mono) simp_all
  ultimately show ?thesis using False by (simp add: p_def q_def algebra_simps)
qed

lemma hslToRgba_parsedRgba:
  assumes h: "0 \<le> h" "h < 360" and s: "0 \<le> s" "s \<le> 1" and l: "0 \<le> l" "l \<le> 1"
    and a: "0 \<le> a \<and> a \<le> 1"
  shows "parsedRgba (hslToRgba h s l a)"
proof (cases "s = 0")
  case True
  have "hexChannel (Math_round (l * 255))" using l by (intro hexChannel_round) simp_all
  with True alpha_unit [OF a] show ?thesis by (simp add: hslToRgba_def parsedRgba_def)
next
  case False
  define q where "q = (if l < 0.5 then l * (1 + s) else l + s - l * s)"
  define p where "p = 2 * l - q"
  from hsl_pq [OF l s] have pq: "0 \<le> p" "p \<le> q" "q \<le> 1"
    unfolding p_def q_def by simp_all
  have ch: "hexChannel (Math_round (hueToRgb p q t0 * 255))" if "- 1 \<le> t0" "t0 \<le> 2" for t0
  proof -
    from hueToRgb_range [OF pq(2) that] pq have "0 \<le> hueToRgb p q t0" "hueToRgb p q t0 \<le> 1"
      by linarith+
    then show ?thesis by (intro hexChannel_round) simp_all
  qed
  have t: "- 1 \<le> h / 360 + 1 / 3" "h / 360 + 1 / 3 \<le> 2" "- 1 \<le> h / 360" "h / 360 \<le> 2"
    "- 1 \<le> h / 360 - 1 / 3" "h / 360 - 1 / 3 \<le> 2"
    using h by simp_all
  have "hslToRgba h s l a =
      \<lparr>rgba_r = Math_round (hueToRgb p q (h / 360 + 1 / 3) * 255),
       rgba_g = Math_round (hueToRgb p q (h / 360) * 255),
       rgba_b = Math_round (hueToRgb p q (h / 360 - 1 / 3) * 255),
       rgba_a = a\<rparr>"
    using False by (simp add: hslToRgba_def Let_def p_def q_def)
  with ch [OF t(1,2)] ch [OF t(3,4)] ch [OF t(5,6)] alpha_unit [OF a]
  show ?thesis by (simp add: parsedRgba_def)
qed

lemma parseHsl_parsedRgba:
  assumes "parseHsl str = Some rgba"
  shows "parsedRgba rgba"
proof (cases "regexMatch hslRegex str")
  case None
  with assms show ?thesis by (simp add: parseHsl_def)
next
  case (Some m)
  note p = assms [unfolded parseHsl_def Some option.case]
  from p obtain h where h: "parseHue (the (group m 1)) = Some h"
    by (cases "parseHue (the (group m 1))") simp_all
  from p h obtain s100 where s: "parsePercent (the (group m 2)) = Some s100"
    by (cases "parsePercent (the (group m 2))") simp_all
  from p h s obtain l100 where l: "parsePercent (the (group m 3)) = Some l100"
    by (cases "parsePercent (the (group m 3))") simp_all
  from p h s l obtain a where a: "parseAlpha (group m 4) = Some a"
    by (cases "parseAlpha (group m 4)") simp_all
  from p h s l a have rgba: "rgba = hslToRgba h (s100 / 100) (l100 / 100) a" by simp
  from parseHue_range [OF h] have hr: "0 \<le> h" "h < 360" by simp_all
  from parsePercent_range [OF s] have sr: "0 \<le> s100 / 100" "s100 / 100 \<le> 1" by simp_all
  from parsePercent_range [OF l] have lr: "0 \<le> l100 / 100" "l100 / 100 \<le> 1" by simp_all
  from hr sr lr parseAlpha_range [OF a] show ?thesis unfolding rgba by (rule hslToRgba_parsedRgba)
qed

lemma parseColor_parsedRgba:
  assumes "parseColor input = Some rgba"
  shows "parsedRgba rgba"
proof -
  define trimmed where "trimmed = trim input"
  from assms have "parseHex trimmed = Some rgba \<or> parseRgb trimmed = Some rgba
      \<or> parseHsl trimmed = Some rgba \<or> parseHex (CHR ''#'' # trimmed) = Some rgba"
    unfolding parseColor_def Let_def trimmed_def [symmetric] by (simp split: if_splits)
  then show ?thesis
    using parseHex_parsedRgba parseRgb_parsedRgba parseHsl_parsedRgba by blast
qed

lemma normalizedHex_eq: "normalizedHex input = map_option rgbaToHex (parseColor input)"
  by (simp add: normalizedHex_def normalizeColor_def Let_def split: option.splits)

section \<open>What the regular expression of rgb() lets through\<close>

lemma take_takeWhile:
  "k \<le> length (takeWhile P s) \<Longrightarrow> \<forall>x\<in>set (take k s). P x"
proof (induction s arbitrary: k)
  case Nil
  then show ?case by simp
next
  case (Cons a s)
  then show ?case by (cases k) (auto split: if_splits)
qed

lemma matchRegex_sound:
  "(s', caps') \<in> set (matchRegex r s caps) \<Longrightarrow> \<exists>w\<in>lang r. s = w @ s'"
proof (induction r arbitrary: s caps s' caps')
  case (OneOf cs)
  then show ?case by (auto split: list.splits if_splits)
next
  case (Seq a b)
  from Seq.prems obtain s1 caps1 where
    1: "(s1, caps1) \<in> set (matchRegex a s caps)" and 2: "(s', caps') \<in> set (matchRegex b s1 caps1)"
    by auto
  from Seq.IH(1) [OF 1] obtain u where u: "u \<in> lang a" "s = u @ s1" by blast
  from Seq.IH(2) [OF 2] obtain v where v: "v \<in> lang b" "s1 = v @ s'" by blast
  from u v have "u @ v \<in> lang (Seq a b)" "s = (u @ v) @ s'" by auto
  then show ?case by blast
next
  case (Alt a b)
  from Alt.prems have "(s', caps') \<in> set (matchRegex a s caps) \<or> (s', caps') \<in> set (matchRegex b s caps)"
    by simp
  then show ?case using Alt.IH by fastforce
next
  case (Opt a)
  from Opt.prems have "(s', caps') \<in> set (matchRegex a s caps) \<or> s' = s" by auto
  then show ?case using Opt.IH by fastforce
next
  case (Many cs lo hi)
  define n where "n = length (takeWhile (\<lambda>c. c \<in> set cs) s)"
  define m where "m = (case hi of None \<Rightarrow> n | Some h \<Rightarrow> min n h)"
  have "(s', caps') \<in> set (map (\<lambda>k. (drop k s, caps)) (rev [lo..<Suc m]))"
    using Many.prems unfolding matchRegex.simps Let_def m_def n_def .
  then obtain k where "k \<in> set (rev [lo..<Suc m])" "s' = drop k s" by auto
  then have k: "lo \<le> k" "k \<le> m" "s' = drop k s" by auto
  have mn: "m \<le> n" "case hi of None \<Rightarrow> True | Some h \<Rightarrow> m \<le> h"
    by (auto simp: m_def split: option.splits)
  have kn: "k \<le> length s"
    using k(2) mn(1) length_takeWhile_le [of "\<lambda>c. c \<in> set cs" s] by (simp add: n_def)
  have "\<forall>x\<in>set (take k s). x \<in> set cs"
    using k(2) mn(1) by (intro take_takeWhile) (simp add: n_def)
  moreover have "length (take k s) = k" using kn by simp
  ultimately have "take k s \<in> lang (Many cs lo hi)"
    using k(1,2) mn(2) by (auto split: option.splits)
  moreover have "s = take k s @ s'" by (simp add: k(3))
  ultimately show ?case by blast
next
  case (Group i a)
  from Group.prems obtain c where "(s', c) \<in> set (matchRegex a s caps)" by auto
  from Group.IH [OF this] show ?case by simp
next
  case EndOfInput
  then show ?case by (auto split: if_splits)
qed

lemma regexMatch_lang:
  assumes "regexMatch r s \<noteq> None"
  shows "\<exists>w s'. w \<in> lang r \<and> s = w @ s'"
proof -
  from assms obtain s' caps' where "(s', caps') \<in> set (matchRegex r s [])"
    by (auto simp: regexMatch_def split: list.splits)
  from matchRegex_sound [OF this] show ?thesis by blast
qed

lemma first_split:
  assumes "u @ x = v @ y" "\<forall>c\<in>set u. \<not> D c" "\<forall>c\<in>set v. \<not> D c"
    "x \<noteq> []" "D (hd x)" "y \<noteq> []" "D (hd y)"
  shows "u = v \<and> x = y"
  using assms
proof (induction u arbitrary: v)
  case Nil
  show ?case
  proof (cases v)
    case Nil
    with Nil.prems show ?thesis by simp
  next
    case (Cons b v')
    with Nil.prems have "hd x = b" by (cases x) auto
    with Nil.prems Cons show ?thesis by auto
  qed
next
  case (Cons a u)
  show ?case
  proof (cases v)
    case Nil
    with Cons.prems have "hd y = a" by (cases y) auto
    with Cons.prems show ?thesis by auto
  next
    case (Cons b v')
    with Cons.prems have "a = b" "u @ x = v' @ y" by simp_all
    moreover from Cons.IH [OF this(2)] Cons.prems Cons have "u = v' \<and> x = y" by simp
    ultimately show ?thesis using Cons by simp
  qed
qed

lemma lang_SeqE:
  assumes "w \<in> lang (Seq a b)"
  obtains u v where "w = u @ v" "u \<in> lang a" "v \<in> lang b"
  using assms by auto

lemma rgbRegex_unfold:
  "rgbRegex =
     Seq (literalIgnoreCase ''rgb'') (Seq (Opt (literalIgnoreCase ''a'')) (Seq (OneOf ''('')
       (Seq spaces (Seq (Group 1 component) (Seq separator (Seq (Group 2 component)
         (Seq separator (Seq (Group 3 component)
           (seqs [spaces, alphaPart, spaces, OneOf '')'', EndOfInput])))))))))"
  by (simp add: rgbRegex_def)

lemma lang_rgb_name:
  assumes "n1 \<in> lang (literalIgnoreCase ''rgb'')" "n2 \<in> lang (Opt (literalIgnoreCase ''a''))"
  shows "CHR ''('' \<notin> set (n1 @ n2)"
  using assms by (auto simp: literalIgnoreCase_def string_eval lowerChar_def)

lemma lang_spaces:
  assumes "sp \<in> lang spaces"
  shows "set sp \<subseteq> set whiteSpace"
  using assms by (simp add: spaces_def)

lemma digit_not_delimiter: "isDigit c \<Longrightarrow> c \<notin> set delimiters \<and> c \<noteq> CHR ''+'' \<and> c \<noteq> CHR ''-''"
  by (auto simp: isDigit_def decimalDigits_def delimiters_def whiteSpace_def)

lemma lang_component:
  assumes "u \<in> lang component"
  shows "u \<noteq> [] \<and> (\<forall>c\<in>set u. c \<notin> set delimiters) \<and> isDigit (hd u) \<and> \<not> signedOrLong u"
proof -
  from assms [unfolded component_def] obtain sn pc where
    1: "u = sn @ pc" "sn \<in> lang shortNumber" "pc \<in> lang (Opt (OneOf ''%''))"
    by (rule lang_SeqE)
  from 1(2) [unfolded shortNumber_def] obtain d f where
    2: "sn = d @ f" "d \<in> lang (Many decimalDigits 1 (Some 3))"
      "f \<in> lang (Opt (Seq (OneOf ''.'') (Many decimalDigits 1 None)))"
    by (rule lang_SeqE)
  have u: "u = d @ f @ pc" by (simp add: 1(1) 2(1))
  have d: "set d \<subseteq> set decimalDigits" "1 \<le> length d" "length d \<le> 3"
    using 2(2) by simp_all
  have f: "f = [] \<or> (\<exists>fd. f = CHR ''.'' # fd \<and> set fd \<subseteq> set decimalDigits)"
    using 2(3) by auto
  have pc: "pc = [] \<or> pc = ''%''"
    using 1(3) by auto
  from d have ne: "d \<noteq> []" by auto
  then have hd: "hd u = hd d" "hd d \<in> set d" by (simp_all add: u)
  with d(1) have dig: "isDigit (hd u)" by (auto simp: isDigit_def)
  have chars: "\<forall>c\<in>set u. c \<notin> set delimiters"
  proof
    fix c assume "c \<in> set u"
    then have "c \<in> set decimalDigits \<or> c = CHR ''.'' \<or> c = CHR ''%''"
      using d(1) f pc by (auto simp: u)
    then show "c \<notin> set delimiters"
      by (auto simp: decimalDigits_def delimiters_def whiteSpace_def)
  qed
  have "\<not> (4 \<le> length u \<and> (\<forall>c\<in>set (take 4 u). isDigit c))"
  proof
    assume a: "4 \<le> length u \<and> (\<forall>c\<in>set (take 4 u). isDigit c)"
    with d(3) have "f @ pc \<noteq> []" by (auto simp: u)
    then have "hd (f @ pc) = CHR ''.'' \<or> hd (f @ pc) = CHR ''%''"
      using f pc by auto
    moreover have "u ! length d = hd (f @ pc)"
      using \<open>f @ pc \<noteq> []\<close> by (simp add: u nth_append hd_conv_nth)
    moreover have "take 4 u ! length d = u ! length d" using d(3) by simp
    moreover have "length d < length (take 4 u)" using a d(3) by simp
    then have "take 4 u ! length d \<in> set (take 4 u)" by (rule nth_mem)
    ultimately have "isDigit CHR ''.'' \<or> isDigit CHR ''%''" using a by metis
    then show False by (simp add: isDigit_def decimalDigits_def)
  qed
  moreover have "hd u \<noteq> CHR ''+''" "hd u \<noteq> CHR ''-''"
    using digit_not_delimiter [OF dig] by simp_all
  ultimately have "\<not> signedOrLong u" by (simp add: signedOrLong_def)
  with ne chars dig show ?thesis by (simp add: u)
qed

lemma lang_separator:
  assumes "p \<in> lang separator"
  shows "p \<noteq> [] \<and> set p \<subseteq> set (CHR '','' # whiteSpace)"
proof -
  have "p \<in> lang (Seq spaces (Seq (OneOf (CHR '','' # whiteSpace)) spaces))"
    using assms by (simp add: separator_def)
  then obtain a r where 1: "p = a @ r" "a \<in> lang spaces"
    "r \<in> lang (Seq (OneOf (CHR '','' # whiteSpace)) spaces)"
    by (rule lang_SeqE)
  from 1(3) obtain x b where 2: "r = x @ b" "x \<in> lang (OneOf (CHR '','' # whiteSpace))"
    "b \<in> lang spaces"
    by (rule lang_SeqE)
  from 2(2) obtain c where c: "x = [c]" "c \<in> set (CHR '','' # whiteSpace)" by auto
  from lang_spaces [OF 1(2)] lang_spaces [OF 2(3)] c show ?thesis
    by (auto simp: 1(1) 2(1))
qed

lemma lang_rgb_tail:
  assumes "t \<in> lang (seqs [spaces, alphaPart, spaces, OneOf '')'', EndOfInput])"
  shows "t \<noteq> [] \<and> hd t \<in> set delimiters"
proof -
  have "t \<in> lang (Seq spaces (Seq alphaPart (Seq spaces (Seq (OneOf '')'') EndOfInput))))"
    using assms by simp
  then obtain a r1 where 1: "t = a @ r1" "a \<in> lang spaces"
    "r1 \<in> lang (Seq alphaPart (Seq spaces (Seq (OneOf '')'') EndOfInput)))"
    by (rule lang_SeqE)
  from 1(3) obtain al r2 where 2: "r1 = al @ r2" "al \<in> lang alphaPart"
    "r2 \<in> lang (Seq spaces (Seq (OneOf '')'') EndOfInput))"
    by (rule lang_SeqE)
  from 2(3) obtain b r3 where 3: "r2 = b @ r3" "b \<in> lang spaces"
    "r3 \<in> lang (Seq (OneOf '')'') EndOfInput)"
    by (rule lang_SeqE)
  from 3(3) have r3: "r3 = '')''" by auto
  have t: "t = a @ al @ b @ '')''" by (simp add: 1(1) 2(1) 3(1) r3)
  have a: "set a \<subseteq> set whiteSpace" using 1(2) by (rule lang_spaces)
  have b: "set b \<subseteq> set whiteSpace" using 3(2) by (rule lang_spaces)
  have "al \<in> lang (Opt (Seq (OneOf '',/'') (seqs [spaces,
                Group 4 (seqs [Many decimalDigits 0 None, Opt (OneOf ''.''),
                               Many decimalDigits 1 None, Opt (OneOf ''%'')])])))"
    using 2(2) by (simp add: alphaPart_def)
  then have "al = [] \<or> al \<in> lang (Seq (OneOf '',/'') (seqs [spaces,
                Group 4 (seqs [Many decimalDigits 0 None, Opt (OneOf ''.''),
                               Many decimalDigits 1 None, Opt (OneOf ''%'')])]))"
    by (simp only: lang.simps insert_iff)
  then have al: "al = [] \<or> hd al \<in> set '',/'' \<and> al \<noteq> []"
  proof
    assume "al = []"
    then show ?thesis by simp
  next
    assume "al \<in> lang (Seq (OneOf '',/'') (seqs [spaces,
                Group 4 (seqs [Many decimalDigits 0 None, Opt (OneOf ''.''),
                               Many decimalDigits 1 None, Opt (OneOf ''%'')])]))"
    then obtain x y where "al = x @ y" "x \<in> lang (OneOf '',/'')" by (rule lang_SeqE)
    then show ?thesis by auto
  qed
  have ws: "x \<noteq> [] \<Longrightarrow> set x \<subseteq> set whiteSpace \<Longrightarrow> hd x \<in> set delimiters" for x
    by (cases x) (auto simp: delimiters_def)
  have "hd t \<in> set delimiters"
  proof (cases "a = []")
    case False
    with ws [OF False a] show ?thesis by (simp add: t)
  next
    case True
    show ?thesis
    proof (cases "al = []")
      case False
      with al True show ?thesis by (auto simp: t delimiters_def)
    next
      case alE: True
      show ?thesis
      proof (cases "b = []")
        case False
        with ws [OF False b] True alE show ?thesis by (simp add: t)
      next
        case bE: True
        with True alE show ?thesis by (simp add: t delimiters_def)
      qed
    qed
  qed
  then show ?thesis by (simp add: t)
qed

lemma separator_chars_delimiters: "c \<in> set (CHR '','' # whiteSpace) \<Longrightarrow> c \<in> set delimiters"
  by (auto simp: delimiters_def)

lemma whiteSpace_delimiters: "c \<in> set whiteSpace \<Longrightarrow> c \<in> set delimiters"
  by (auto simp: delimiters_def)

lemma hd_in_set_append: "x \<noteq> [] \<Longrightarrow> hd (x @ y) = hd x \<and> hd x \<in> set x"
  by (cases x) simp_all

lemma parseRgb_needs_components:
  assumes wf: "wellFormedCall name blanks c1 s1 c2 s2 c3 rest"
    and ok: "parseRgb (callString name blanks c1 s1 c2 s2 c3 rest) \<noteq> None"
  shows "c1 \<in> lang component \<and> c2 \<in> lang component \<and> c3 \<in> lang component"
proof -
  let ?s = "callString name blanks c1 s1 c2 s2 c3 rest"
  from wf have name: "CHR ''('' \<notin> set name" and blanks: "set blanks \<subseteq> set whiteSpace"
    and c1: "c1 \<noteq> []" "\<forall>c\<in>set c1. c \<notin> set delimiters"
    and c2: "c2 \<noteq> []" "\<forall>c\<in>set c2. c \<notin> set delimiters"
    and c3: "c3 \<noteq> []" "\<forall>c\<in>set c3. c \<notin> set delimiters"
    and s1: "s1 \<noteq> []" "set s1 \<subseteq> set (CHR '','' # whiteSpace)"
    and s2: "s2 \<noteq> []" "set s2 \<subseteq> set (CHR '','' # whiteSpace)"
    and rest: "rest = [] \<or> hd rest \<in> set delimiters"
    by (simp_all add: wellFormedCall_def isToken_def isSeparator_def)
  from ok have "regexMatch rgbRegex ?s \<noteq> None"
    by (auto simp: parseRgb_def split: option.splits)
  from regexMatch_lang [OF this] obtain w s' where w: "w \<in> lang rgbRegex" "?s = w @ s'"
    by blast
  let ?r9 = "seqs [spaces, alphaPart, spaces, OneOf '')'', EndOfInput]"
  let ?r8 = "Seq (Group 3 component) ?r9"
  let ?r7 = "Seq separator ?r8"
  let ?r6 = "Seq (Group 2 component) ?r7"
  let ?r5 = "Seq separator ?r6"
  let ?r4 = "Seq (Group 1 component) ?r5"
  let ?r3 = "Seq spaces ?r4"
  let ?r2 = "Seq (OneOf ''('') ?r3"
  let ?r1 = "Seq (Opt (literalIgnoreCase ''a'')) ?r2"
  have "w \<in> lang (Seq (literalIgnoreCase ''rgb'') ?r1)"
    using w(1) by (simp only: rgbRegex_unfold)
  then obtain n1 v1 where 1: "w = n1 @ v1" "n1 \<in> lang (literalIgnoreCase ''rgb'')" "v1 \<in> lang ?r1"
    by (rule lang_SeqE)
  from 1(3) obtain n2 v2 where 2: "v1 = n2 @ v2" "n2 \<in> lang (Opt (literalIgnoreCase ''a''))"
    "v2 \<in> lang ?r2"
    by (rule lang_SeqE)
  from 2(3) obtain par v3 where 3: "v2 = par @ v3" "par \<in> lang (OneOf ''('')" "v3 \<in> lang ?r3"
    by (rule lang_SeqE)
  from 3(3) obtain sp v4 where 4: "v3 = sp @ v4" "sp \<in> lang spaces" "v4 \<in> lang ?r4"
    by (rule lang_SeqE)
  from 4(3) obtain u1 v5 where 5: "v4 = u1 @ v5" "u1 \<in> lang (Group 1 component)" "v5 \<in> lang ?r5"
    by (rule lang_SeqE)
  from 5(3) obtain p1 v6 where 6: "v5 = p1 @ v6" "p1 \<in> lang separator" "v6 \<in> lang ?r6"
    by (rule lang_SeqE)
  from 6(3) obtain u2 v7 where 7: "v6 = u2 @ v7" "u2 \<in> lang (Group 2 component)" "v7 \<in> lang ?r7"
    by (rule lang_SeqE)
  from 7(3) obtain p2 v8 where 8: "v7 = p2 @ v8" "p2 \<in> lang separator" "v8 \<in> lang ?r8"
    by (rule lang_SeqE)
  from 8(3) obtain u3 t where 9: "v8 = u3 @ t" "u3 \<in> lang (Group 3 component)" "t \<in> lang ?r9"
    by (rule lang_SeqE)
  from 3(2) have par: "par = ''(''" by auto
  from 5(2) 7(2) 9(2) have u: "u1 \<in> lang component" "u2 \<in> lang component" "u3 \<in> lang component"
    by simp_all
  note U1 = lang_component [OF u(1)] and U2 = lang_component [OF u(2)]
    and U3 = lang_component [OF u(3)]
  note P1 = lang_separator [OF 6(2)] and P2 = lang_separator [OF 8(2)]
  note T = lang_rgb_tail [OF 9(3)]
  note SP = lang_spaces [OF 4(2)]
  have e0: "name @ (CHR ''('' # blanks @ c1 @ s1 @ c2 @ s2 @ c3 @ rest)
          = (n1 @ n2) @ (CHR ''('' # sp @ u1 @ p1 @ u2 @ p2 @ u3 @ t @ s')"
    using w(2) by (simp add: callString_def 1(1) 2(1) 3(1) 4(1) 5(1) 6(1) 7(1) 8(1) 9(1) par)
  have "name = n1 @ n2 \<and> CHR ''('' # blanks @ c1 @ s1 @ c2 @ s2 @ c3 @ rest
          = CHR ''('' # sp @ u1 @ p1 @ u2 @ p2 @ u3 @ t @ s'"
    using e0
  proof (rule first_split [where D = "\<lambda>c. c = CHR ''(''"])
    show "\<forall>c\<in>set name. c \<noteq> CHR ''(''" using name by auto
    show "\<forall>c\<in>set (n1 @ n2). c \<noteq> CHR ''(''" using lang_rgb_name [OF 1(2) 2(2)] by auto
  qed simp_all
  then have e1: "blanks @ (c1 @ s1 @ c2 @ s2 @ c3 @ rest) = sp @ (u1 @ p1 @ u2 @ p2 @ u3 @ t @ s')"
    by simp
  have "blanks = sp \<and> c1 @ s1 @ c2 @ s2 @ c3 @ rest = u1 @ p1 @ u2 @ p2 @ u3 @ t @ s'"
    using e1
  proof (rule first_split [where D = "\<lambda>c. c \<notin> set whiteSpace"])
    show "\<forall>c\<in>set blanks. \<not> c \<notin> set whiteSpace" using blanks by auto
    show "\<forall>c\<in>set sp. \<not> c \<notin> set whiteSpace" using SP by auto
    show "c1 @ s1 @ c2 @ s2 @ c3 @ rest \<noteq> []" using c1 by simp
    show "u1 @ p1 @ u2 @ p2 @ u3 @ t @ s' \<noteq> []" using U1 by simp
    show "hd (c1 @ s1 @ c2 @ s2 @ c3 @ rest) \<notin> set whiteSpace"
      using hd_in_set_append [OF c1(1)] c1(2) whiteSpace_delimiters by metis
    show "hd (u1 @ p1 @ u2 @ p2 @ u3 @ t @ s') \<notin> set whiteSpace"
      using hd_in_set_append [of u1] U1 whiteSpace_delimiters by metis
  qed
  then have e2: "c1 @ (s1 @ c2 @ s2 @ c3 @ rest) = u1 @ (p1 @ u2 @ p2 @ u3 @ t @ s')" by simp
  have "c1 = u1 \<and> s1 @ c2 @ s2 @ c3 @ rest = p1 @ u2 @ p2 @ u3 @ t @ s'"
    using e2
  proof (rule first_split [where D = "\<lambda>c. c \<in> set delimiters"])
    show "\<forall>c\<in>set c1. \<not> c \<in> set delimiters" using c1 by simp
    show "\<forall>c\<in>set u1. \<not> c \<in> set delimiters" using U1 by simp
    show "s1 @ c2 @ s2 @ c3 @ rest \<noteq> []" using s1 by simp
    show "p1 @ u2 @ p2 @ u3 @ t @ s' \<noteq> []" using P1 by simp
    show "hd (s1 @ c2 @ s2 @ c3 @ rest) \<in> set delimiters"
      using hd_in_set_append [OF s1(1)] s1(2) separator_chars_delimiters by (metis subsetD)
    show "hd (p1 @ u2 @ p2 @ u3 @ t @ s') \<in> set delimiters"
      using hd_in_set_append [of p1] P1 separator_chars_delimiters by (metis subsetD)
  qed
  then have r1: "c1 = u1" and e3: "s1 @ (c2 @ s2 @ c3 @ rest) = p1 @ (u2 @ p2 @ u3 @ t @ s')"
    by simp_all
  have "s1 = p1 \<and> c2 @ s2 @ c3 @ rest = u2 @ p2 @ u3 @ t @ s'"
    using e3
  proof (rule first_split [where D = "\<lambda>c. c \<notin> set (CHR '','' # whiteSpace)"])
    show "\<forall>c\<in>set s1. \<not> c \<notin> set (CHR '','' # whiteSpace)" using s1 by auto
    show "\<forall>c\<in>set p1. \<not> c \<notin> set (CHR '','' # whiteSpace)" using P1 by auto
    show "c2 @ s2 @ c3 @ rest \<noteq> []" using c2 by simp
    show "u2 @ p2 @ u3 @ t @ s' \<noteq> []" using U2 by simp
    show "hd (c2 @ s2 @ c3 @ rest) \<notin> set (CHR '','' # whiteSpace)"
      using hd_in_set_append [OF c2(1)] c2(2) separator_chars_delimiters by metis
    show "hd (u2 @ p2 @ u3 @ t @ s') \<notin> set (CHR '','' # whiteSpace)"
      using hd_in_set_append [of u2] U2 separator_chars_delimiters by metis
  qed
  then have e4: "c2 @ (s2 @ c3 @ rest) = u2 @ (p2 @ u3 @ t @ s')" by simp
  have "c2 = u2 \<and> s2 @ c3 @ rest = p2 @ u3 @ t @ s'"
    using e4
  proof (rule first_split [where D = "\<lambda>c. c \<in> set delimiters"])
    show "\<forall>c\<in>set c2. \<not> c \<in> set delimiters" using c2 by simp
    show "\<forall>c\<in>set u2. \<not> c \<in> set delimiters" using U2 by simp
    show "s2 @ c3 @ rest \<noteq> []" using s2 by simp
    show "p2 @ u3 @ t @ s' \<noteq> []" using P2 by simp
    show "hd (s2 @ c3 @ rest) \<in> set delimiters"
      using hd_in_set_append [OF s2(1)] s2(2) separator_chars_delimiters by (metis subsetD)
    show "hd (p2 @ u3 @ t @ s') \<in> set delimiters"
      using hd_in_set_append [of p2] P2 separator_chars_delimiters by (metis subsetD)
  qed
  then have r2: "c2 = u2" and e5: "s2 @ (c3 @ rest) = p2 @ (u3 @ t @ s')" by simp_all
  have "s2 = p2 \<and> c3 @ rest = u3 @ t @ s'"
    using e5
  proof (rule first_split [where D = "\<lambda>c. c \<notin> set (CHR '','' # whiteSpace)"])
    show "\<forall>c\<in>set s2. \<not> c \<notin> set (CHR '','' # whiteSpace)" using s2 by auto
    show "\<forall>c\<in>set p2. \<not> c \<notin> set (CHR '','' # whiteSpace)" using P2 by auto
    show "c3 @ rest \<noteq> []" using c3 by simp
    show "u3 @ t @ s' \<noteq> []" using U3 by simp
    show "hd (c3 @ rest) \<notin> set (CHR '','' # whiteSpace)"
      using hd_in_set_append [OF c3(1)] c3(2) separator_chars_delimiters by metis
    show "hd (u3 @ t @ s') \<notin> set (CHR '','' # whiteSpace)"
      using hd_in_set_append [of u3] U3 separator_chars_delimiters by metis
  qed
  then have e6: "c3 @ rest = u3 @ (t @ s')" by simp
  have T': "t @ s' \<noteq> []" "hd (t @ s') \<in> set delimiters"
    using T hd_in_set_append [of t s'] by simp_all
  have r3: "c3 = u3"
  proof (cases "rest = []")
    case True
    with e6 have "c3 = u3 @ (t @ s')" by simp
    then have "hd (t @ s') \<in> set c3" using T'(1) by (cases "t @ s'") auto
    with T'(2) c3(2) show ?thesis by blast
  next
    case False
    with rest have "hd rest \<in> set delimiters" by simp
    with e6 False T' c3(2) U3 first_split [where D = "\<lambda>c. c \<in> set delimiters", of c3 rest u3 "t @ s'"]
    show ?thesis by blast
  qed
  from u r1 r2 r3 show ?thesis by simp
qed

lemma clampChannel_range:
  assumes "clampChannel v = Some x"
  shows "0 \<le> x \<and> x \<le> 255"
  using assms by (auto simp: clampChannel_def)

lemma parseRgb_channelsInRange:
  assumes "parseRgb str = Some rgba"
  shows "channelsInRange rgba"
proof (cases "regexMatch rgbRegex str")
  case None
  with assms show ?thesis by (simp add: parseRgb_def)
next
  case (Some m)
  with assms have
    "makeRgba (clampChannel (parseComponent (the (group m 1)) 255))
       (clampChannel (parseComponent (the (group m 2)) 255))
       (clampChannel (parseComponent (the (group m 3)) 255))
       (parseAlpha (group m 4)) = Some rgba"
    by (simp add: parseRgb_def Let_def)
  then have c: "clampChannel (parseComponent (the (group m 1)) 255) = Some (rgba_r rgba)"
    "clampChannel (parseComponent (the (group m 2)) 255) = Some (rgba_g rgba)"
    "clampChannel (parseComponent (the (group m 3)) 255) = Some (rgba_b rgba)"
    by (simp_all only: makeRgba_Some)
  from clampChannel_range [OF c(1)] clampChannel_range [OF c(2)] clampChannel_range [OF c(3)]
  show ?thesis by (simp add: channelsInRange_def)
qed

section \<open>The groups the parsers read are captured by every match\<close>

lemma matchRegex_groups:
  "(s', caps') \<in> set (matchRegex r s caps) \<Longrightarrow>
   fst ` set caps \<subseteq> fst ` set caps' \<and> definiteGroups r \<subseteq> fst ` set caps'"
proof (induction r arbitrary: s caps s' caps')
  case (OneOf cs)
  then have "caps' = caps" by (auto split: list.splits if_splits)
  then show ?case by simp
next
  case (Seq a b)
  from Seq.prems obtain s1 caps1 where
    1: "(s1, caps1) \<in> set (matchRegex a s caps)" and 2: "(s', caps') \<in> set (matchRegex b s1 caps1)"
    by auto
  from Seq.IH(1) [OF 1] have a: "fst ` set caps \<subseteq> fst ` set caps1"
    "definiteGroups a \<subseteq> fst ` set caps1" by simp_all
  from Seq.IH(2) [OF 2] have b: "fst ` set caps1 \<subseteq> fst ` set caps'"
    "definiteGroups b \<subseteq> fst ` set caps'" by simp_all
  from a(1) b(1) have "fst ` set caps \<subseteq> fst ` set caps'" by (rule subset_trans)
  moreover from a(2) b(1) have "definiteGroups a \<subseteq> fst ` set caps'" by (rule subset_trans)
  ultimately show ?case using b(2) by simp
next
  case (Alt a b)
  from Alt.prems have "(s', caps') \<in> set (matchRegex a s caps) \<or> (s', caps') \<in> set (matchRegex b s caps)"
    by simp
  then show ?case
  proof
    assume "(s', caps') \<in> set (matchRegex a s caps)"
    from Alt.IH(1) [OF this] show ?thesis by (simp add: le_infI1)
  next
    assume "(s', caps') \<in> set (matchRegex b s caps)"
    from Alt.IH(2) [OF this] show ?thesis by (simp add: le_infI2)
  qed
next
  case (Opt a)
  from Opt.prems have "(s', caps') \<in> set (matchRegex a s caps) \<or> caps' = caps" by auto
  then show ?case
  proof
    assume "(s', caps') \<in> set (matchRegex a s caps)"
    from Opt.IH [OF this] show ?thesis by simp
  next
    assume "caps' = caps"
    then show ?thesis by simp
  qed
next
  case (Many cs lo hi)
  then have "caps' = caps" by (auto simp: Let_def)
  then show ?case by simp
next
  case (Group i a)
  from Group.prems obtain c where c: "(s', c) \<in> set (matchRegex a s caps)"
    "caps' = (i, take (length s - length s') s) # c"
    by auto
  from Group.IH [OF c(1)] have "fst ` set caps \<subseteq> fst ` set c" "definiteGroups a \<subseteq> fst ` set c"
    by simp_all
  then show ?case unfolding c(2) by (simp add: subset_insertI2)
next
  case EndOfInput
  then have "caps' = caps" by (auto split: if_splits)
  then show ?case by simp
qed

lemma regexMatch_groups:
  assumes "regexMatch r s = Some m" "i \<in> definiteGroups r"
  shows "group m i \<noteq> None"
proof -
  from assms(1) obtain s' where "(s', m) \<in> set (matchRegex r s [])"
    by (auto simp: regexMatch_def split: list.splits)
  from matchRegex_groups [OF this] assms(2) have "i \<in> fst ` set m" by blast
  then show ?thesis by (simp add: group_def map_of_eq_None_iff)
qed

lemma rgbRegex_groups: "{1, 2, 3} \<subseteq> definiteGroups rgbRegex"
  by (simp add: rgbRegex_def)

lemma hslRegex_groups: "{1, 2, 3} \<subseteq> definiteGroups hslRegex"
  by (simp add: hslRegex_def)

lemma parseRgb_groups_defined:
  assumes "regexMatch rgbRegex s = Some m"
  shows "group m 1 \<noteq> None \<and> group m 2 \<noteq> None \<and> group m 3 \<noteq> None"
  using regexMatch_groups [OF assms] rgbRegex_groups by auto

lemma parseHsl_groups_defined:
  assumes "regexMatch hslRegex s = Some m"
  shows "group m 1 \<noteq> None \<and> group m 2 \<noteq> None \<and> group m 3 \<noteq> None"
  using regexMatch_groups [OF assms] hslRegex_groups by auto

section \<open>Properties of the contrast engine\<close>

lemma srgbToLuminanceChannel_bounds:
  assumes "0 \<le> c" "c \<le> 255"
  shows "0 \<le> srgbToLuminanceChannel c \<and> srgbToLuminanceChannel c \<le> 1"
proof (cases "c / 255 \<le> 0.03928")
  case True
  with assms show ?thesis by (simp add: srgbToLuminanceChannel_def Let_def)
next
  case False
  have "0 \<le> (c / 255 + 0.055) / 1.055" "(c / 255 + 0.055) / 1.055 \<le> 1"
    using assms by simp_all
  then have "((c / 255 + 0.055) / 1.055) powr 2.4 \<le> 1"
    by (intro powr_le1) simp_all
  with False show ?thesis by (simp add: srgbToLuminanceChannel_def Let_def)
qed

lemma getRelativeLuminance_bounds:
  assumes "channelsInRange c"
  shows "0 \<le> getRelativeLuminance c \<and> getRelativeLuminance c \<le> 1"
proof -
  from assms have
    "0 \<le> srgbToLuminanceChannel (rgba_r c) \<and> srgbToLuminanceChannel (rgba_r c) \<le> 1"
    "0 \<le> srgbToLuminanceChannel (rgba_g c) \<and> srgbToLuminanceChannel (rgba_g c) \<le> 1"
    "0 \<le> srgbToLuminanceChannel (rgba_b c) \<and> srgbToLuminanceChannel (rgba_b c) \<le> 1"
    by (simp_all add: channelsInRange_def srgbToLuminanceChannel_bounds)
  then show ?thesis by (simp add: getRelativeLuminance_def Let_def)
qed

lemma contrast_of_luminances:
  fixes l1 l2 :: real
  assumes "0 \<le> l1" "l1 \<le> 1" "0 \<le> l2" "l2 \<le> 1"
  shows "1 \<le> (max l1 l2 + 0.05) / (min l1 l2 + 0.05) \<and> (max l1 l2 + 0.05) / (min l1 l2 + 0.05) \<le> 21"
proof -
  have p: "0 < min l1 l2 + 0.05" using assms by (simp add: min_def)
  have "min l1 l2 + 0.05 \<le> max l1 l2 + 0.05" by simp
  moreover have "max l1 l2 + 0.05 \<le> 21 * (min l1 l2 + 0.05)" using assms by (simp add: min_def max_def)
  ultimately show ?thesis using p by (simp add: pos_le_divide_eq pos_divide_le_eq)
qed

lemma luminance_black: "getRelativeLuminance \<lparr>rgba_r = 0, rgba_g = 0, rgba_b = 0, rgba_a = 1\<rparr> = 0"
  by (simp add: getRelativeLuminance_def srgbToLuminanceChannel_def)

lemma luminance_white: "getRelativeLuminance \<lparr>rgba_r = 255, rgba_g = 255, rgba_b = 255, rgba_a = 1\<rparr> = 1"
  by (simp add: getRelativeLuminance_def srgbToLuminanceChannel_def)

lemma luminance_gray:
  "getRelativeLuminance \<lparr>rgba_r = c, rgba_g = c, rgba_b = c, rgba_a = a\<rparr> = srgbToLuminanceChannel c"
  by (simp add: getRelativeLuminance_def Let_def)

lemma luminance_dark_text: "0 \<le> getRelativeLuminance darkTextRgba \<and> getRelativeLuminance darkTextRgba < 1"
proof -
  have "((17 / 255 + 0.055) / 1.055) powr 2.4 < (1::real) powr 2.4"
    by (intro powr_less_mono2) simp_all
  then show ?thesis
    by (simp add: darkTextRgba_def luminance_gray srgbToLuminanceChannel_def Let_def)
qed

lemma luminance_light_text: "getRelativeLuminance lightTextRgba = 1"
  by (simp add: lightTextRgba_def luminance_gray srgbToLuminanceChannel_def Let_def)

lemma computeTextColor_black: "computeTextColor ''#000000'' = ''#FFFFFF''"
proof -
  have p: "parseColor ''#000000'' = Some \<lparr>rgba_r = 0, rgba_g = 0, rgba_b = 0, rgba_a = 1\<rparr>"
    by (simp add: parse_eval builtin_eval string_eval)
  have l: "getRelativeLuminance \<lparr>rgba_r = 0, rgba_g = 0, rgba_b = 0, rgba_a = 1\<rparr> = 0"
    by (simp add: luminance_gray srgbToLuminanceChannel_def)
  have "(getRelativeLuminance darkTextRgba + 0.05) / 0.05 < 21"
    using luminance_dark_text by simp
  then show ?thesis
    using luminance_dark_text
    by (simp add: computeTextColor_def p getContrastRatio_def l luminance_light_text Let_def
        LIGHT_TEXT_def max_def min_def)
qed

lemma computeTextColor_white: "computeTextColor ''#FFFFFF'' = ''#111111''"
proof -
  have p: "parseColor ''#FFFFFF'' = Some lightTextRgba"
    by (simp add: parse_eval builtin_eval string_eval lightTextRgba_def)
  have "1 \<le> 1.05 / (getRelativeLuminance darkTextRgba + 0.05)"
    using luminance_dark_text by (simp add: pos_le_divide_eq)
  then show ?thesis
    using luminance_dark_text
    by (simp add: computeTextColor_def p getContrastRatio_def luminance_light_text Let_def
        DARK_TEXT_def max_def min_def)
qed

lemma computeTextColor_invalid: "computeTextColor ''invalid'' = ''#111111''"
proof -
  have p: "parseColor ''invalid'' = None"
    by (simp add: parse_eval regex_eval builtin_eval string_eval)
  show ?thesis by (simp add: computeTextColor_def p DARK_TEXT_def)
qed

section \<open>Properties of the naming engine\<close>

subsection \<open>The nearest-neighbour scan\<close>

lemma lessDistance_trans: "a < b \<Longrightarrow> lessDistance b cur \<Longrightarrow> lessDistance a cur"
  by (cases cur) auto

lemma not_lessDistance_le: "\<not> lessDistance b cur \<Longrightarrow> lessDistance a cur \<Longrightarrow> a < b"
  by (cases cur) auto

lemma findNearestLoop_spec:
  "(findNearestLoop color cache nearest = nearest \<and>
      (\<forall>j<length cache. \<not> lessDistance (entryDistance color (cache ! j)) (nearest_distance nearest)))
   \<or> (\<exists>i<length cache.
         findNearestLoop color cache nearest =
           \<lparr>nearest_name = ce_name (cache ! i),
            nearest_distance = Finite (entryDistance color (cache ! i))\<rparr>
         \<and> lessDistance (entryDistance color (cache ! i)) (nearest_distance nearest)
         \<and> (\<forall>j<length cache. entryDistance color (cache ! i) \<le> entryDistance color (cache ! j))
         \<and> (\<forall>j<i. entryDistance color (cache ! i) < entryDistance color (cache ! j)))"
  (is "?Same cache nearest \<or> ?Found cache nearest")
proof (induction cache arbitrary: nearest)
  case Nil
  show ?case by simp
next
  case (Cons e cache)
  let ?d = "entryDistance color e"
  show ?case
  proof (cases "lessDistance ?d (nearest_distance nearest)")
    case True
    let ?n = "\<lparr>nearest_name = ce_name e, nearest_distance = Finite ?d\<rparr>"
    have step: "findNearestLoop color (e # cache) nearest = findNearestLoop color cache ?n"
      using True by (simp add: entryDistance_def Let_def)
    from Cons.IH [of ?n] show ?thesis
    proof
      assume same: "?Same cache ?n"
      then have "\<forall>j<length cache. ?d \<le> entryDistance color (cache ! j)"
        by (auto simp: not_less)
      then have "\<forall>j<length (e # cache). ?d \<le> entryDistance color ((e # cache) ! j)"
        by (auto simp: nth_Cons')
      with same step True have "?Found (e # cache) nearest"
        by (intro exI [of _ 0]) simp
      then show ?thesis ..
    next
      assume "?Found cache ?n"
      then obtain i where i: "i < length cache"
        and res: "findNearestLoop color cache ?n =
           \<lparr>nearest_name = ce_name (cache ! i),
            nearest_distance = Finite (entryDistance color (cache ! i))\<rparr>"
        and lt: "entryDistance color (cache ! i) < ?d"
        and mn: "\<forall>j<length cache. entryDistance color (cache ! i) \<le> entryDistance color (cache ! j)"
        and first: "\<forall>j<i. entryDistance color (cache ! i) < entryDistance color (cache ! j)"
        by auto
      have "lessDistance (entryDistance color (cache ! i)) (nearest_distance nearest)"
        using lt True by (rule lessDistance_trans)
      moreover have "\<forall>j<length (e # cache).
          entryDistance color (cache ! i) \<le> entryDistance color ((e # cache) ! j)"
        using mn lt by (auto simp: nth_Cons')
      moreover have "\<forall>j<Suc i. entryDistance color (cache ! i) < entryDistance color ((e # cache) ! j)"
        using first lt by (auto simp: nth_Cons' less_Suc_eq_0_disj)
      ultimately have "?Found (e # cache) nearest"
        using i res step by (intro exI [of _ "Suc i"]) simp
      then show ?thesis ..
    qed
  next
    case False
    have step: "findNearestLoop color (e # cache) nearest = findNearestLoop color cache nearest"
      using False by (simp add: entryDistance_def Let_def)
    from Cons.IH [of nearest] show ?thesis
    proof
      assume "?Same cache nearest"
      with step False have "?Same (e # cache) nearest"
        by (auto simp: nth_Cons')
      then show ?thesis ..
    next
      assume "?Found cache nearest"
      then obtain i where i: "i < length cache"
        and res: "findNearestLoop color cache nearest =
           \<lparr>nearest_name = ce_name (cache ! i),
            nearest_distance = Finite (entryDistance color (cache ! i))\<rparr>"
        and lt: "lessDistance (entryDistance color (cache ! i)) (nearest_distance nearest)"
        and mn: "\<forall>j<length cache. entryDistance color (cache ! i) \<le> entryDistance color (cache ! j)"
        and first: "\<forall>j<i. entryDistance color (cache ! i) < entryDistance color (cache ! j)"
        by auto
      have d: "entryDistance color (cache ! i) < ?d"
        using False lt by (rule not_lessDistance_le)
      have "\<forall>j<length (e # cache).
          entryDistance color (cache ! i) \<le> entryDistance color ((e # cache) ! j)"
        using mn d by (auto simp: nth_Cons')
      moreover have "\<forall>j<Suc i. entryDistance color (cache ! i) < entryDistance color ((e # cache) ! j)"
        using first d by (auto simp: nth_Cons' less_Suc_eq_0_disj)
      ultimately have "?Found (e # cache) nearest"
        using i res step lt by (intro exI [of _ "Suc i"]) simp
      then show ?thesis ..
    qed
  qed
qed

lemma findNearestColor_spec:
  assumes "cache \<noteq> []"
  shows "\<exists>i<length cache.
         findNearestColor cache color =
           \<lparr>nearest_name = ce_name (cache ! i),
            nearest_distance = Finite (entryDistance color (cache ! i))\<rparr>
         \<and> (\<forall>j<length cache. entryDistance color (cache ! i) \<le> entryDistance color (cache ! j))
         \<and> (\<forall>j<i. entryDistance color (cache ! i) < entryDistance color (cache ! j))"
proof -
  let ?n = "\<lparr>nearest_name = ''Unknown'', nearest_distance = Infinity\<rparr>"
  from assms have "0 < length cache" by simp
  then have "\<not> (\<forall>j<length cache. \<not> lessDistance (entryDistance color (cache ! j)) (nearest_distance ?n))"
    by auto
  with findNearestLoop_spec [of color cache ?n] show ?thesis
    unfolding findNearestColor_def by blast
qed

lemma autoName_empty_cache: "autoName T [] color = generateFallbackName T color"
  by (simp add: autoName_def findNearestColor_def)

lemma autoName_spec:
  assumes "cache \<noteq> []"
  shows "\<exists>i<length cache.
           (\<forall>j<length cache. entryDistance color (cache ! i) \<le> entryDistance color (cache ! j))
         \<and> (\<forall>j<i. entryDistance color (cache ! i) < entryDistance color (cache ! j))
         \<and> autoName T cache color =
             (if entryDistance color (cache ! i) < 0.15 then ce_name (cache ! i)
              else generateFallbackName T color)"
proof -
  from findNearestColor_spec [OF assms, of color] obtain i where
    "i < length cache"
    "findNearestColor cache color =
       \<lparr>nearest_name = ce_name (cache ! i),
        nearest_distance = Finite (entryDistance color (cache ! i))\<rparr>"
    "\<forall>j<length cache. entryDistance color (cache ! i) \<le> entryDistance color (cache ! j)"
    "\<forall>j<i. entryDistance color (cache ! i) < entryDistance color (cache ! j)"
    by blast
  then show ?thesis
    by (intro exI [of _ i]) (simp add: autoName_def MATCH_THRESHOLD_def)
qed

subsection \<open>The lookup in the provided names\<close>

lemma upperChar_idem: "upperChar (upperChar c) = upperChar c"
  by (simp add: upperChar_def lowerLetters_def upperLetters_def)

lemma toUpperCase_idem: "toUpperCase (toUpperCase s) = toUpperCase s"
  by (simp add: toUpperCase_def upperChar_idem)

lemma entriesLoop_None:
  "entriesLoop m n = None \<longleftrightarrow> (\<forall>(k, v)\<in>set m. toUpperCase k \<noteq> n)"
  by (induction m) (auto split: if_splits)

lemma entriesLoop_find:
  "entriesLoop m n = map_option snd (find (\<lambda>kv. toUpperCase (fst kv) = n) m)"
  by (induction m) auto

lemma providedLookup_None:
  "providedLookup m color = None \<longleftrightarrow> (\<forall>(k, v)\<in>set m. toUpperCase k \<noteq> toUpperCase (nc_hex color))"
proof -
  have "entriesLoop m (toUpperCase (nc_hex color)) \<noteq> None"
    if "map_of m (toUpperCase (nc_hex color)) = Some v" for v
  proof -
    from that have "(toUpperCase (nc_hex color), v) \<in> set m" by (rule map_of_SomeD)
    then have "\<exists>(k, w)\<in>set m. toUpperCase k = toUpperCase (nc_hex color)"
      using toUpperCase_idem [of "nc_hex color"] by (intro bexI) auto
    then show ?thesis
      by (auto simp: entriesLoop_None)
  qed
  then show ?thesis
    by (auto simp: providedLookup_def Let_def entriesLoop_None split: option.splits)
qed

lemma nameColor_provided:
  "nameColor T cache color StrategyProvided (Some m) =
     (case providedLookup m color of Some v \<Rightarrow> v | None \<Rightarrow> autoName T cache color)"
  by (simp add: nameColor_def)

lemma nameColor_auto: "nameColor T cache color StrategyAuto pn = autoName T cache color"
  by (simp add: nameColor_def)

lemma nameColor_falls_through:
  assumes "strategy = StrategyAuto \<or>
           (strategy = StrategyProvided \<and>
            (case providedNames of None \<Rightarrow> True
             | Some m \<Rightarrow> \<forall>(k, v)\<in>set m. toUpperCase k \<noteq> toUpperCase (nc_hex color)))"
  shows "nameColor T cache color strategy providedNames = autoName T cache color"
proof (cases providedNames)
  case None
  with assms show ?thesis by (auto simp: nameColor_def)
next
  case (Some m)
  show ?thesis
  proof (cases "strategy = StrategyAuto")
    case True
    then show ?thesis by (simp add: nameColor_auto)
  next
    case False
    with assms Some have "providedLookup m color = None"
      by (simp add: providedLookup_None)
    with False assms Some show ?thesis by (simp add: nameColor_provided)
  qed
qed

subsection \<open>The uniqueness pass\<close>

lemma getCount_upd: "getCount (m(x \<mapsto> n)) b = (if b = x then n else getCount m b)"
  by (simp add: getCount_def)

lemma length_nameCountsLoop: "length (nameCountsLoop names m) = length names"
  by (induction names arbitrary: m) (auto simp: Let_def)

lemma suffixed_empty: "suffixed [] k = []"
  by (simp add: suffixed_def)

lemma nth_nameCountsLoop:
  "i < length names \<Longrightarrow>
   nameCountsLoop names m ! i =
     suffixed (names ! i) (getCount m (names ! i) + count_list (take (Suc i) names) (names ! i))"
proof (induction names arbitrary: m i)
  case Nil
  then show ?case by simp
next
  case (Cons x xs)
  show ?case
  proof (cases i)
    case 0
    then show ?thesis by (simp add: Let_def suffixed_def)
  next
    case (Suc j)
    with Cons.prems have j: "j < length xs" by simp
    define b where "b = xs ! j"
    show ?thesis
    proof (cases "x = []")
      case True
      have "nameCountsLoop (x # xs) m ! i = nameCountsLoop xs m ! j"
        using True Suc by simp
      also have "\<dots> = suffixed b (getCount m b + count_list (take (Suc j) xs) b)"
        unfolding b_def by (rule Cons.IH [OF j])
      also have "\<dots> = suffixed b (getCount m b + count_list (take (Suc i) (x # xs)) b)"
        using True Suc by (cases "b = []") (simp_all add: suffixed_empty)
      finally show ?thesis using Suc by (simp add: b_def)
    next
      case False
      let ?m = "m(x \<mapsto> getCount m x + 1)"
      have "nameCountsLoop (x # xs) m ! i = nameCountsLoop xs ?m ! j"
        using False Suc by (simp add: Let_def)
      also have "\<dots> = suffixed b (getCount ?m b + count_list (take (Suc j) xs) b)"
        unfolding b_def by (rule Cons.IH [OF j])
      also have "getCount ?m b + count_list (take (Suc j) xs) b
                 = getCount m b + count_list (take (Suc i) (x # xs)) b"
        using Suc by (simp add: getCount_upd)
      finally show ?thesis using Suc by (simp add: b_def)
    qed
  qed
qed

subsection \<open>Names are not empty\<close>

lemma colorDistance_nonneg: "0 \<le> colorDistance x y"
  by (simp add: colorDistance_def Let_def)

lemma colorDistance_self: "colorDistance x x = 0"
  by (simp add: colorDistance_def)

lemma getHueFamilyLoop_nonempty:
  "\<forall>(f, lo, hi)\<in>set hf. removeFirst CHR ''2'' f \<noteq> [] \<Longrightarrow> getHueFamilyLoop hf h \<noteq> []"
  by (induction hf h rule: getHueFamilyLoop.induct) auto

lemma generateFallbackName_nonempty:
  assumes "\<forall>(f, lo, hi)\<in>set (HUE_FAMILIES T). removeFirst CHR ''2'' f \<noteq> []"
  shows "generateFallbackName T color \<noteq> []"
proof -
  from assms have "getHueFamily T h \<noteq> []" for h
    unfolding getHueFamily_def by (rule getHueFamilyLoop_nonempty)
  then show ?thesis
    by (simp add: generateFallbackName_def Let_def)
qed

lemma autoName_nonempty:
  assumes "\<forall>e\<in>set cache. ce_name e \<noteq> []"
    and "\<forall>(f, lo, hi)\<in>set (HUE_FAMILIES T). removeFirst CHR ''2'' f \<noteq> []"
  shows "autoName T cache color \<noteq> []"
proof (cases "cache = []")
  case True
  with assms(2) show ?thesis
    by (simp add: autoName_empty_cache generateFallbackName_nonempty)
next
  case False
  from autoName_spec [OF False, of color T] obtain i where
    i: "i < length cache" and
    eq: "autoName T cache color =
             (if entryDistance color (cache ! i) < 0.15 then ce_name (cache ! i)
              else generateFallbackName T color)"
    by blast
  from i assms(1) have "ce_name (cache ! i) \<noteq> []" by simp
  with eq assms(2) show ?thesis
    by (simp add: generateFallbackName_nonempty)
qed


text \<open>
  When the upper-cased string is a key and every key that equals it up to letter case is
  that key, the scan ends at the entry the direct lookup reads.
\<close>

lemma entriesLoop_only_exact:
  assumes "map_of m n = Some v"
    and "toUpperCase n = n"
    and "\<forall>(k, w)\<in>set m. toUpperCase k = n \<longrightarrow> k = n"
  shows "entriesLoop m n = Some v"
  using assms by (induction m) (auto split: if_splits)

text \<open>A value that the lookup finds is the entry of a key that equals the hex string up to
  letter case.\<close>

lemma providedLookup_Some:
  assumes "providedLookup m color = Some w"
  shows "\<exists>k. (k, w) \<in> set m \<and> toUpperCase k = toUpperCase (nc_hex color)"
proof (cases "map_of m (toUpperCase (nc_hex color)) = Some w")
  case True
  then have "(toUpperCase (nc_hex color), w) \<in> set m" by (rule map_of_SomeD)
  then show ?thesis using toUpperCase_idem [of "nc_hex color"] by blast
next
  case False
  with assms have "entriesLoop m (toUpperCase (nc_hex color)) = Some w"
    by (auto simp: providedLookup_def Let_def split: option.splits if_splits)
  then obtain kv where
    "find (\<lambda>kv. toUpperCase (fst kv) = toUpperCase (nc_hex color)) m = Some kv" "snd kv = w"
    by (auto simp: entriesLoop_find)
  then have "kv \<in> set m" "toUpperCase (fst kv) = toUpperCase (nc_hex color)"
    by (auto simp: find_Some_iff)
  with \<open>snd kv = w\<close> show ?thesis by (cases kv) auto
qed
subsection \<open>Evaluation of the sample data\<close>

lemmas sample_eval = sampleColor_def sampleEntry_def sampleTables_def

lemma normalized_red_hex: "nc_hex (projr (normalizeColor ''#FF0000'')) = ''#FF0000''"
  by (simp add: normalizeColor_def parse_eval builtin_eval string_eval)

section \<open>Claims about the naming engine\<close>

text \<open>
  Claim C1. Under the \<open>auto\<close> strategy, and under \<open>provided\<close> when no name is provided for
  the color (no mapping, or no key equal to the hex string up to letter case), \<open>nameColor\<close>
  scans the cache in order and selects the entry at the minimum OKLab Euclidean distance;
  every entry scanned before the selected one is strictly farther, so among the entries at
  the minimum the earliest wins. The name of the selected entry is the result when that
  distance is strictly below 0.15, and the fallback name synthesized from the color is the
  result otherwise (also when the cache is empty).
\<close>

theorem nameColor_auto_nearest:
  assumes "strategy = StrategyAuto \<or>
           (strategy = StrategyProvided \<and>
            (case providedNames of None \<Rightarrow> True
             | Some m \<Rightarrow> \<forall>(k, v)\<in>set m. toUpperCase k \<noteq> toUpperCase (nc_hex color)))"
  shows "(cache = [] \<longrightarrow>
            nameColor T cache color strategy providedNames = generateFallbackName T color)
       \<and> (cache \<noteq> [] \<longrightarrow> (\<exists>i<length cache.
            (\<forall>j<length cache. colorDistance (nc_oklab color) (nc_oklab (ce_color (cache ! i)))
                               \<le> colorDistance (nc_oklab color) (nc_oklab (ce_color (cache ! j))))
          \<and> (\<forall>j<i. colorDistance (nc_oklab color) (nc_oklab (ce_color (cache ! i)))
                    < colorDistance (nc_oklab color) (nc_oklab (ce_color (cache ! j))))
          \<and> nameColor T cache color strategy providedNames =
              (if colorDistance (nc_oklab color) (nc_oklab (ce_color (cache ! i))) < 0.15
               then ce_name (cache ! i)
               else generateFallbackName T color)))"
proof -
  have eq: "nameColor T cache color strategy providedNames = autoName T cache color"
    using assms by (rule nameColor_falls_through)
  show ?thesis
  proof (intro conjI impI)
    assume "cache = []"
    then show "nameColor T cache color strategy providedNames = generateFallbackName T color"
      using eq by (simp add: autoName_empty_cache)
  next
    assume "cache \<noteq> []"
    from autoName_spec [OF this, of color T] show "\<exists>i<length cache.
            (\<forall>j<length cache. colorDistance (nc_oklab color) (nc_oklab (ce_color (cache ! i)))
                               \<le> colorDistance (nc_oklab color) (nc_oklab (ce_color (cache ! j))))
          \<and> (\<forall>j<i. colorDistance (nc_oklab color) (nc_oklab (ce_color (cache ! i)))
                    < colorDistance (nc_oklab color) (nc_oklab (ce_color (cache ! j))))
          \<and> nameColor T cache color strategy providedNames =
              (if colorDistance (nc_oklab color) (nc_oklab (ce_color (cache ! i))) < 0.15
               then ce_name (cache ! i)
               else generateFallbackName T color)"
      unfolding eq entryDistance_def .
  qed
qed

theorem nameColor_auto_nearest_witness:
  "nameColor sampleTables
     [sampleEntry ''#777777'' ''First'' 0.5, sampleEntry ''#787878'' ''Second'' 0.5,
      sampleEntry ''#FFFFFF'' ''Third'' 1]
     (sampleColor ''#777777'' 0.5) StrategyProvided (Some [(''#000000'', ''Custom Black'')]) = ''First''"
proof -
  let ?cache = "[sampleEntry ''#777777'' ''First'' 0.5, sampleEntry ''#787878'' ''Second'' 0.5,
      sampleEntry ''#FFFFFF'' ''Third'' 1]"
  let ?c = "sampleColor ''#777777'' 0.5"
  let ?pn = "Some [(''#000000'', ''Custom Black'')]"
  have h: "StrategyProvided = StrategyAuto \<or>
           (StrategyProvided = StrategyProvided \<and>
            (case ?pn of None \<Rightarrow> True
             | Some m \<Rightarrow> \<forall>(k, v)\<in>set m. toUpperCase k \<noteq> toUpperCase (nc_hex ?c)))"
    by (simp add: sampleColor_def toUpperCase_def upperChar_def lowerLetters_def upperLetters_def)
  have ne: "?cache \<noteq> []" by simp
  from nameColor_auto_nearest [OF h, of ?cache sampleTables] ne
  obtain i where i: "i < length ?cache"
    and first: "\<forall>j<i. colorDistance (nc_oklab ?c) (nc_oklab (ce_color (?cache ! i)))
                    < colorDistance (nc_oklab ?c) (nc_oklab (ce_color (?cache ! j)))"
    and res: "nameColor sampleTables ?cache ?c StrategyProvided ?pn =
              (if colorDistance (nc_oklab ?c) (nc_oklab (ce_color (?cache ! i))) < 0.15
               then ce_name (?cache ! i)
               else generateFallbackName sampleTables ?c)"
    by blast
  have "i = 0"
  proof (rule ccontr)
    assume "i \<noteq> 0"
    with first have "colorDistance (nc_oklab ?c) (nc_oklab (ce_color (?cache ! i)))
                    < colorDistance (nc_oklab ?c) (nc_oklab (ce_color (?cache ! 0)))"
      by blast
    moreover have "colorDistance (nc_oklab ?c) (nc_oklab (ce_color (?cache ! 0))) = 0"
      by (simp add: colorDistance_def sampleEntry_def sampleColor_def)
    ultimately show False
      using colorDistance_nonneg [of "nc_oklab ?c" "nc_oklab (ce_color (?cache ! i))"] by linarith
  qed
  with res show ?thesis
    by (simp add: colorDistance_def sampleEntry_def sampleColor_def)
qed

text \<open>
  Claim C2. \<open>nameColors\<close> returns as many names as there are colors, in the same order. The
  name at position \<open>i\<close> is built from the base name \<open>nameColor\<close> gives the \<open>i\<close>-th color and
  from \<open>k\<close>, the number of times that base name occurs among the first \<open>i + 1\<close> base names:
  an empty base name stays empty, the first occurrence is the base name itself, and the
  \<open>k\<close>-th occurrence for \<open>k \<ge> 2\<close> is the base name, a space and \<open>k\<close> in decimal. Three times a
  color that \<open>auto\<close> names Red gives Red, Red 2, Red 3.
\<close>

theorem nameColors_suffixes:
  "length (nameColors T cache colors strategy pn) = length colors
   \<and> (\<forall>i<length colors.
        nameColors T cache colors strategy pn ! i =
          (let baseName = nameColor T cache (colors ! i) strategy pn;
               k = count_list (take (Suc i) (map (\<lambda>c. nameColor T cache c strategy pn) colors))
                     baseName
           in if baseName = [] then []
              else if k = 1 then baseName
              else baseName @ '' '' @ natToString 10 k))
   \<and> (nameColor T cache red StrategyAuto pn = ''Red'' \<longrightarrow>
        nameColors T cache [red, red, red] StrategyAuto pn = [''Red'', ''Red 2'', ''Red 3''])"
proof (intro conjI allI impI)
  show "length (nameColors T cache colors strategy pn) = length colors"
    by (simp add: nameColors_def length_nameCountsLoop)
next
  fix i assume "i < length colors"
  then show "nameColors T cache colors strategy pn ! i =
          (let baseName = nameColor T cache (colors ! i) strategy pn;
               k = count_list (take (Suc i) (map (\<lambda>c. nameColor T cache c strategy pn) colors))
                     baseName
           in if baseName = [] then []
              else if k = 1 then baseName
              else baseName @ '' '' @ natToString 10 k)"
    by (simp add: nameColors_def nth_nameCountsLoop suffixed_def getCount_def Let_def)
next
  assume "nameColor T cache red StrategyAuto pn = ''Red''"
  then show "nameColors T cache [red, red, red] StrategyAuto pn = [''Red'', ''Red 2'', ''Red 3'']"
    by (simp add: nameColors_def getCount_def Let_def natToString.simps digitChar_def)
qed

theorem nameColors_suffixes_witness:
  "nameColors sampleTables [sampleEntry ''#FF0000'' ''Red'' 0.5]
     [sampleColor ''#FF0000'' 0.5, sampleColor ''#FF0000'' 0.5, sampleColor ''#FF0000'' 0.5]
     StrategyAuto None ! 2 = ''Red 3''"
proof -
  let ?cache = "[sampleEntry ''#FF0000'' ''Red'' 0.5]"
  let ?cs = "[sampleColor ''#FF0000'' 0.5, sampleColor ''#FF0000'' 0.5, sampleColor ''#FF0000'' 0.5]"
  have n: "nameColor sampleTables ?cache (sampleColor ''#FF0000'' 0.5) StrategyAuto None = ''Red''"
    by (simp add: nameColor_def autoName_def findNearestColor_def colorDistance_def
        MATCH_THRESHOLD_def sample_eval)
  have i: "2 < length ?cs" by simp
  from nameColors_suffixes [of sampleTables ?cache ?cs StrategyAuto None] i
  have "nameColors sampleTables ?cache ?cs StrategyAuto None ! 2 =
          (let baseName = nameColor sampleTables ?cache (?cs ! 2) StrategyAuto None;
               k = count_list (take (Suc 2) (map (\<lambda>c. nameColor sampleTables ?cache c StrategyAuto None) ?cs))
                     baseName
           in if baseName = [] then []
              else if k = 1 then baseName
              else baseName @ '' '' @ natToString 10 k)"
    by blast
  then show ?thesis
    using n by (simp add: Let_def natToString.simps digitChar_def)
qed

text \<open>
  Claim C3 does not hold as it is stated: the \<open>auto\<close> name that \<open>provided\<close> falls back to can be
  the very name that the mapping gives to another color. The cache is the one that
  \<open>getColorCache\<close> builds from a dataset in which \<open>#FF0000\<close> is \<open>Red\<close>, the color is \<open>#FF0000\<close>
  normalized, and the mapping names \<open>#000000\<close>, which is not this color, \<open>Red\<close> as well: no key
  matches, and the result is \<open>Red\<close>.
\<close>

theorem nameColor_provided_counterexample:
  "toUpperCase ''#000000'' \<noteq> toUpperCase (nc_hex (projr (normalizeColor ''#FF0000'')))
   \<and> nameColor sampleTables (projr (getColorCache [(''#FF0000'', ''Red'')]))
        (projr (normalizeColor ''#FF0000'')) StrategyProvided (Some [(''#000000'', ''Red'')])
      = ''Red''"
proof -
  let ?x = "projr (normalizeColor ''#FF0000'')"
  have x: "normalizeColor ''#FF0000'' = Inr ?x"
    by (simp add: normalizeColor_def parse_eval builtin_eval string_eval)
  have cache: "projr (getColorCache [(''#FF0000'', ''Red'')])
             = [\<lparr>ce_hex = ''#FF0000'', ce_name = ''Red'', ce_color = ?x\<rparr>]"
    by (subst getColorCache.simps, subst x) simp
  have key: "toUpperCase ''#000000'' \<noteq> toUpperCase (nc_hex ?x)"
    by (simp add: normalized_red_hex string_eval)
  then have "providedLookup [(''#000000'', ''Red'')] ?x = None"
    by (simp add: providedLookup_None)
  then have "nameColor sampleTables (projr (getColorCache [(''#FF0000'', ''Red'')])) ?x
               StrategyProvided (Some [(''#000000'', ''Red'')])
           = autoName sampleTables [\<lparr>ce_hex = ''#FF0000'', ce_name = ''Red'', ce_color = ?x\<rparr>] ?x"
    by (simp only: nameColor_provided cache option.case)
  also have "\<dots> = ''Red''"
    by (simp add: autoName_def findNearestColor_def colorDistance_def MATCH_THRESHOLD_def)
  finally show ?thesis using key by blast
qed

text \<open>
  Claim C3, amended. \<open>none\<close> gives the empty string, whatever the cache holds. Under
  \<open>provided\<close> the entry under the upper-cased hex string is the result when it is present and
  not empty, and also when it is present and no other key equals the hex string up to letter
  case; when the upper-cased hex string is not a key, the result is the entry of the first
  key, in the order of enumeration, that equals the hex string up to letter case; when no key
  does, the result is the one of \<open>auto\<close>. The \<open>auto\<close> name is not empty as long as no name of
  the cache is empty and every hue family key has a character left once its first \<open>2\<close> is
  removed; it may be a name that the mapping gives to another color.
\<close>

theorem nameColor_strategies:
  "nameColor T cache x StrategyNone pn = []
   \<and> (map_of m (toUpperCase (nc_hex x)) = Some v \<and> v \<noteq> [] \<longrightarrow>
        nameColor T cache x StrategyProvided (Some m) = v)
   \<and> (map_of m (toUpperCase (nc_hex x)) = Some v
        \<and> (\<forall>(k', v')\<in>set m. toUpperCase k' = toUpperCase (nc_hex x) \<longrightarrow> k' = toUpperCase (nc_hex x)) \<longrightarrow>
        nameColor T cache x StrategyProvided (Some m) = v)
   \<and> (map_of m (toUpperCase (nc_hex x)) = None
        \<and> find (\<lambda>kv. toUpperCase (fst kv) = toUpperCase (nc_hex x)) m = Some (k, w) \<longrightarrow>
        nameColor T cache x StrategyProvided (Some m) = w)
   \<and> ((\<forall>(k, v)\<in>set m. toUpperCase k \<noteq> toUpperCase (nc_hex x)) \<longrightarrow>
        nameColor T cache x StrategyProvided (Some m) = nameColor T cache x StrategyAuto pn')
   \<and> ((\<forall>e\<in>set cache. ce_name e \<noteq> [])
        \<and> (\<forall>(f, lo, hi)\<in>set (HUE_FAMILIES T). removeFirst CHR ''2'' f \<noteq> []) \<longrightarrow>
        nameColor T cache x StrategyAuto pn' \<noteq> [])"
proof (intro conjI impI)
  show "nameColor T cache x StrategyNone pn = []"
    by (simp add: nameColor_def)
next
  assume "map_of m (toUpperCase (nc_hex x)) = Some v \<and> v \<noteq> []"
  then show "nameColor T cache x StrategyProvided (Some m) = v"
    by (simp add: nameColor_provided providedLookup_def)
next
  assume a: "map_of m (toUpperCase (nc_hex x)) = Some v
        \<and> (\<forall>(k', v')\<in>set m. toUpperCase k' = toUpperCase (nc_hex x) \<longrightarrow> k' = toUpperCase (nc_hex x))"
  then have "entriesLoop m (toUpperCase (nc_hex x)) = Some v"
    by (intro entriesLoop_only_exact) (simp_all add: toUpperCase_idem)
  with a have "providedLookup m x = Some v"
    by (simp add: providedLookup_def)
  then show "nameColor T cache x StrategyProvided (Some m) = v"
    by (simp add: nameColor_provided)
next
  assume "map_of m (toUpperCase (nc_hex x)) = None
        \<and> find (\<lambda>kv. toUpperCase (fst kv) = toUpperCase (nc_hex x)) m = Some (k, w)"
  then show "nameColor T cache x StrategyProvided (Some m) = w"
    by (simp add: nameColor_provided providedLookup_def entriesLoop_find)
next
  assume "\<forall>(k, v)\<in>set m. toUpperCase k \<noteq> toUpperCase (nc_hex x)"
  then have "providedLookup m x = None" by (simp add: providedLookup_None)
  then show "nameColor T cache x StrategyProvided (Some m) = nameColor T cache x StrategyAuto pn'"
    by (simp add: nameColor_provided nameColor_auto)
next
  assume "(\<forall>e\<in>set cache. ce_name e \<noteq> [])
        \<and> (\<forall>(f, lo, hi)\<in>set (HUE_FAMILIES T). removeFirst CHR ''2'' f \<noteq> [])"
  then show "nameColor T cache x StrategyAuto pn' \<noteq> []"
    by (simp add: nameColor_auto autoName_nonempty)
qed

theorem nameColor_strategies_witness:
  "nameColor sampleTables [sampleEntry ''#FF0000'' ''Red'' 0.5] (sampleColor ''#FF6600'' 0.7)
     StrategyProvided (Some [(''#FF6600'', ''Custom Orange'')]) = ''Custom Orange''
   \<and> nameColor sampleTables [sampleEntry ''#FF0000'' ''Red'' 0.5] (sampleColor ''#FF6600'' 0.7)
       StrategyProvided (Some [(''#000000'', ''Custom Black''), (''#FF6600'', [])]) = []
   \<and> nameColor sampleTables [sampleEntry ''#FF0000'' ''Red'' 0.5] (sampleColor ''#FF6600'' 0.7)
       StrategyProvided (Some [(''#000000'', ''Custom Black'')])
     = nameColor sampleTables [sampleEntry ''#FF0000'' ''Red'' 0.5] (sampleColor ''#FF6600'' 0.7)
       StrategyAuto None
   \<and> nameColor sampleTables [sampleEntry ''#FF0000'' ''Red'' 0.5] (sampleColor ''#FF6600'' 0.7)
       StrategyAuto None \<noteq> []
   \<and> nameColor sampleTables [sampleEntry ''#FF0000'' ''Red'' 0.5] (sampleColor ''#FF6600'' 0.7)
       StrategyProvided (Some [(''#ff6600'', ''lower''), (''#Ff6600'', ''mixed'')]) = ''lower''"
proof -
  let ?T = sampleTables
  let ?cache = "[sampleEntry ''#FF0000'' ''Red'' 0.5]"
  let ?x = "sampleColor ''#FF6600'' 0.7"
  let ?m1 = "[(''#FF6600'', ''Custom Orange'')]"
  let ?m2 = "[(''#000000'', ''Custom Black'')]"
  let ?m3 = "[(''#ff6600'', ''lower''), (''#Ff6600'', ''mixed'')]"
  let ?m4 = "[(''#000000'', ''Custom Black''), (''#FF6600'', [])]"
  have a: "map_of ?m1 (toUpperCase (nc_hex ?x)) = Some ''Custom Orange'' \<and> ''Custom Orange'' \<noteq> []"
    by (simp add: string_eval sample_eval)
  have b: "\<forall>(k, v)\<in>set ?m2. toUpperCase k \<noteq> toUpperCase (nc_hex ?x)"
    by (simp add: string_eval sample_eval)
  have c: "(\<forall>e\<in>set ?cache. ce_name e \<noteq> [])
        \<and> (\<forall>(f, lo, hi)\<in>set (HUE_FAMILIES ?T). removeFirst CHR ''2'' f \<noteq> [])"
    by (simp add: sample_eval)
  have d: "map_of ?m3 (toUpperCase (nc_hex ?x)) = None
        \<and> find (\<lambda>kv. toUpperCase (fst kv) = toUpperCase (nc_hex ?x)) ?m3 = Some (''#ff6600'', ''lower'')"
    by (simp add: string_eval sample_eval)
  have e: "map_of ?m4 (toUpperCase (nc_hex ?x)) = Some []
        \<and> (\<forall>(k', v')\<in>set ?m4. toUpperCase k' = toUpperCase (nc_hex ?x) \<longrightarrow> k' = toUpperCase (nc_hex ?x))"
    by (simp add: string_eval sample_eval)
  from nameColor_strategies [of ?T ?cache ?x None ?m1 "''Custom Orange''"] a
  have 1: "nameColor ?T ?cache ?x StrategyProvided (Some ?m1) = ''Custom Orange''" by blast
  from nameColor_strategies [of ?T ?cache ?x None ?m4 "[]"] e
  have 2: "nameColor ?T ?cache ?x StrategyProvided (Some ?m4) = []" by blast
  from nameColor_strategies [of ?T ?cache ?x None ?m2 _ _ _ None] b
  have 3: "nameColor ?T ?cache ?x StrategyProvided (Some ?m2) = nameColor ?T ?cache ?x StrategyAuto None"
    by blast
  from nameColor_strategies [of ?T ?cache ?x None ?m2 _ _ _ None] c
  have 4: "nameColor ?T ?cache ?x StrategyAuto None \<noteq> []" by blast
  from nameColor_strategies [of ?T ?cache ?x None ?m3 _ "''#ff6600''" "''lower''"] d
  have 5: "nameColor ?T ?cache ?x StrategyProvided (Some ?m3) = ''lower''" by blast
  from 1 2 3 4 5 show ?thesis by blast
qed

text \<open>
  Claim C9 does not hold as it is stated: when two keys equal the hex string up to letter
  case, only the entry of one of them can be the result. For the color \<open>#FF0000\<close>
  normalized, neither \<open>#ff0000\<close> nor \<open>#Ff0000\<close> is the upper-cased hex string and both equal it
  up to letter case; the entry of \<open>#Ff0000\<close> is the empty string, and the result is the
  entry of \<open>#ff0000\<close>, which the scan meets first.
\<close>

theorem nameColor_provided_empty_name_counterexample:
  "toUpperCase ''#Ff0000'' = toUpperCase (nc_hex (projr (normalizeColor ''#FF0000'')))
   \<and> map_of [(''#ff0000'', ''Crimson''), (''#Ff0000'', [])] ''#Ff0000'' = Some []
   \<and> map_of [(''#ff0000'', ''Crimson''), (''#Ff0000'', [])]
        (toUpperCase (nc_hex (projr (normalizeColor ''#FF0000'')))) = None
   \<and> nameColor sampleTables [] (projr (normalizeColor ''#FF0000'')) StrategyProvided
        (Some [(''#ff0000'', ''Crimson''), (''#Ff0000'', [])]) = ''Crimson''"
  by (simp add: nameColor_def providedLookup_def normalized_red_hex string_eval)

text \<open>
  Claim C9, amended. Under \<open>provided\<close>, when some key of the mapping equals the hex string up
  to letter case, the result is the entry of such a key and does not depend on the cache or
  on the tables, so no \<open>auto\<close> name is involved. When the upper-cased hex string is not a key,
  the result is the entry of the first key, in the order of enumeration, that equals the hex
  string up to letter case; when one entry only has such a key, the result is that entry. In
  both cases the entry is the result also when it is the empty string.
\<close>

theorem nameColor_provided_empty_name:
  assumes "\<exists>(k, v)\<in>set m. toUpperCase k = toUpperCase (nc_hex color)"
  shows "(\<exists>(k, v)\<in>set m. toUpperCase k = toUpperCase (nc_hex color) \<and>
            nameColor T cache color StrategyProvided (Some m) = v)
       \<and> nameColor T cache color StrategyProvided (Some m) =
           nameColor T' cache' color StrategyProvided (Some m)
       \<and> (map_of m (toUpperCase (nc_hex color)) = None
            \<and> find (\<lambda>kv. toUpperCase (fst kv) = toUpperCase (nc_hex color)) m = Some (k, w) \<longrightarrow>
            nameColor T cache color StrategyProvided (Some m) = w)
       \<and> ((k, w) \<in> set m \<and> toUpperCase k = toUpperCase (nc_hex color)
            \<and> (\<forall>(k', v')\<in>set m. toUpperCase k' = toUpperCase (nc_hex color) \<longrightarrow> (k', v') = (k, w)) \<longrightarrow>
            nameColor T cache color StrategyProvided (Some m) = w)"
proof -
  let ?n = "toUpperCase (nc_hex color)"
  from assms have "providedLookup m color \<noteq> None"
    by (auto simp: providedLookup_None)
  then obtain u where u: "providedLookup m color = Some u" by blast
  have res: "nameColor T cache color StrategyProvided (Some m) = u" for T cache
    using u by (simp add: nameColor_provided)
  from providedLookup_Some [OF u]
  obtain j where j: "(j, u) \<in> set m" "toUpperCase j = ?n" by blast
  have 1: "\<exists>(k, v)\<in>set m. toUpperCase k = ?n \<and>
            nameColor T cache color StrategyProvided (Some m) = v"
    using j res by (intro bexI [of _ "(j, u)"]) auto
  have 2: "nameColor T cache color StrategyProvided (Some m) =
           nameColor T' cache' color StrategyProvided (Some m)"
    by (simp add: res)
  have 3: "map_of m ?n = None \<and> find (\<lambda>kv. toUpperCase (fst kv) = ?n) m = Some (k, w) \<longrightarrow>
            nameColor T cache color StrategyProvided (Some m) = w"
    by (simp add: nameColor_provided providedLookup_def entriesLoop_find)
  have 4: "(k, w) \<in> set m \<and> toUpperCase k = ?n
            \<and> (\<forall>(k', v')\<in>set m. toUpperCase k' = ?n \<longrightarrow> (k', v') = (k, w)) \<longrightarrow>
            nameColor T cache color StrategyProvided (Some m) = w"
    using j res by auto
  from 1 2 3 4 show ?thesis by blast
qed

theorem nameColor_provided_empty_name_witness:
  "nameColor sampleTables [sampleEntry ''#FF0000'' ''Red'' 0.5] (sampleColor ''#FF0000'' 0.5)
     StrategyProvided (Some [(''#ff0000'', []), (''#Ff0000'', ''Crimson'')]) = []
   \<and> nameColor sampleTables [sampleEntry ''#FF0000'' ''Red'' 0.5] (sampleColor ''#FF0000'' 0.5)
     StrategyProvided (Some [(''#000000'', ''Black''), (''#FF0000'', [])]) = []
   \<and> nameColor sampleTables [sampleEntry ''#FF0000'' ''Red'' 0.5] (sampleColor ''#FF0000'' 0.5)
     StrategyAuto None = ''Red''"
proof -
  let ?T = sampleTables
  let ?cache = "[sampleEntry ''#FF0000'' ''Red'' 0.5]"
  let ?c = "sampleColor ''#FF0000'' 0.5"
  let ?m1 = "[(''#ff0000'', []), (''#Ff0000'', ''Crimson'')]"
  let ?m2 = "[(''#000000'', ''Black''), (''#FF0000'', [])]"
  have h1: "\<exists>(k, v)\<in>set ?m1. toUpperCase k = toUpperCase (nc_hex ?c)"
    by (simp add: string_eval sample_eval)
  have h2: "\<exists>(k, v)\<in>set ?m2. toUpperCase k = toUpperCase (nc_hex ?c)"
    by (simp add: string_eval sample_eval)
  have a: "map_of ?m1 (toUpperCase (nc_hex ?c)) = None
         \<and> find (\<lambda>kv. toUpperCase (fst kv) = toUpperCase (nc_hex ?c)) ?m1 = Some (''#ff0000'', [])"
    by (simp add: string_eval sample_eval)
  have b: "(''#FF0000'', []) \<in> set ?m2 \<and> toUpperCase ''#FF0000'' = toUpperCase (nc_hex ?c)
         \<and> (\<forall>(k', v')\<in>set ?m2. toUpperCase k' = toUpperCase (nc_hex ?c) \<longrightarrow>
              (k', v') = (''#FF0000'', []))"
    by (simp add: string_eval sample_eval)
  from nameColor_provided_empty_name [OF h1, of ?T ?cache _ _ "''#ff0000''" "[]"] a
  have 1: "nameColor ?T ?cache ?c StrategyProvided (Some ?m1) = []" by blast
  from nameColor_provided_empty_name [OF h2, of ?T ?cache _ _ "''#FF0000''" "[]"] b
  have 2: "nameColor ?T ?cache ?c StrategyProvided (Some ?m2) = []" by blast
  have 3: "nameColor ?T ?cache ?c StrategyAuto None = ''Red''"
    by (simp add: nameColor_def autoName_def findNearestColor_def colorDistance_def
        MATCH_THRESHOLD_def sample_eval)
  from 1 2 3 show ?thesis by blast
qed

section \<open>Claims about the hex parser\<close>

text \<open>
  Claim C5, at a string the code accepts against it. The digit string \<open>1G0000\<close> has six
  characters and \<open>G\<close> is not a hexadecimal digit, yet \<open>parseHex\<close> returns a color: \<open>parseInt\<close>
  reads the pair \<open>1G\<close> as 1, so the test for \<open>NaN\<close> does not see the bad digit.
\<close>

theorem parseHex_accepts_non_hex_digit:
  "\<not> isHexDigit CHR ''G'' \<and>
   parseHex ''#1G0000'' = Some \<lparr>rgba_r = 1, rgba_g = 0, rgba_b = 0, rgba_a = 1\<rparr>"
  by (simp add: parse_eval builtin_eval string_eval)

text \<open>
  Claim C10. Take a string in the form of a call, with three components that are tokens
  between separators. When one of the components has a leading sign or more than three
  integer digits, \<open>parseRgb\<close> returns \<open>null\<close>, whatever the name, the other components and the
  rest are. What \<open>parseRgb\<close> does return has its channels between 0 and 255. So
  \<open>rgb(1000, 0, 0)\<close> and \<open>rgb(-5, 0, 0)\<close> are rejected, and \<open>rgb(300, 102, 0)\<close> is accepted
  with 300 clamped to 255.
\<close>

theorem parseRgb_rejects_signed_or_long:
  "(wellFormedCall name blanks c1 s1 c2 s2 c3 rest
      \<and> (signedOrLong c1 \<or> signedOrLong c2 \<or> signedOrLong c3) \<longrightarrow>
      parseRgb (callString name blanks c1 s1 c2 s2 c3 rest) = None)
   \<and> (parseRgb str = Some rgba \<longrightarrow> channelsInRange rgba)
   \<and> parseRgb ''rgb(1000, 0, 0)'' = None
   \<and> parseRgb ''rgb(-5, 0, 0)'' = None
   \<and> parseRgb ''rgb(300, 102, 0)'' = Some \<lparr>rgba_r = 255, rgba_g = 102, rgba_b = 0, rgba_a = 1\<rparr>"
proof (intro conjI impI)
  assume a: "wellFormedCall name blanks c1 s1 c2 s2 c3 rest
      \<and> (signedOrLong c1 \<or> signedOrLong c2 \<or> signedOrLong c3)"
  show "parseRgb (callString name blanks c1 s1 c2 s2 c3 rest) = None"
  proof (rule ccontr)
    assume "parseRgb (callString name blanks c1 s1 c2 s2 c3 rest) \<noteq> None"
    with a have "c1 \<in> lang component \<and> c2 \<in> lang component \<and> c3 \<in> lang component"
      by (intro parseRgb_needs_components) simp_all
    then have "\<not> signedOrLong c1" "\<not> signedOrLong c2" "\<not> signedOrLong c3"
      using lang_component by blast+
    with a show False by blast
  qed
next
  assume "parseRgb str = Some rgba"
  then show "channelsInRange rgba" by (rule parseRgb_channelsInRange)
next
  show "parseRgb ''rgb(1000, 0, 0)'' = None"
    by (simp add: parse_eval regex_eval builtin_eval string_eval)
  show "parseRgb ''rgb(-5, 0, 0)'' = None"
    by (simp add: parse_eval regex_eval builtin_eval string_eval)
  show "parseRgb ''rgb(300, 102, 0)'' = Some \<lparr>rgba_r = 255, rgba_g = 102, rgba_b = 0, rgba_a = 1\<rparr>"
    by (simp add: parse_eval regex_eval builtin_eval string_eval)
qed

theorem parseRgb_rejects_signed_or_long_witness:
  "wellFormedCall ''rgba'' '' '' ''12'' '', '' ''+34'' '' '' ''5'' '' / 0.5)''
   \<and> signedOrLong ''+34''
   \<and> callString ''rgba'' '' '' ''12'' '', '' ''+34'' '' '' ''5'' '' / 0.5)'' = ''rgba( 12, +34 5 / 0.5)''
   \<and> parseRgb ''rgba( 12, +34 5 / 0.5)'' = None
   \<and> wellFormedCall ''rgb'' [] ''0'' '','' ''0'' '','' ''25500'' '')''
   \<and> signedOrLong ''25500''
   \<and> parseRgb (callString ''rgb'' [] ''0'' '','' ''0'' '','' ''25500'' '')'') = None
   \<and> channelsInRange \<lparr>rgba_r = 255, rgba_g = 102, rgba_b = 0, rgba_a = 1\<rparr>"
proof -
  have w1: "wellFormedCall ''rgba'' '' '' ''12'' '', '' ''+34'' '' '' ''5'' '' / 0.5)''"
    by (simp add: wellFormedCall_def isToken_def isSeparator_def delimiters_def whiteSpace_def)
  have b1: "signedOrLong ''+34''" by (simp add: signedOrLong_def)
  have s1: "callString ''rgba'' '' '' ''12'' '', '' ''+34'' '' '' ''5'' '' / 0.5)'' = ''rgba( 12, +34 5 / 0.5)''"
    by (simp add: callString_def)
  have w2: "wellFormedCall ''rgb'' [] ''0'' '','' ''0'' '','' ''25500'' '')''"
    by (simp add: wellFormedCall_def isToken_def isSeparator_def delimiters_def whiteSpace_def)
  have b2: "signedOrLong ''25500''" by (simp add: signedOrLong_def isDigit_def decimalDigits_def)
  from parseRgb_rejects_signed_or_long [of "''rgba''" "'' ''" "''12''" "'', ''" "''+34''" "'' ''" "''5''" "'' / 0.5)''"]
    w1 b1
  have r1: "parseRgb (callString ''rgba'' '' '' ''12'' '', '' ''+34'' '' '' ''5'' '' / 0.5)'') = None"
    by blast
  from parseRgb_rejects_signed_or_long [of "''rgb''" "[]" "''0''" "'',''" "''0''" "'',''" "''25500''" "'')''"]
    w2 b2
  have r2: "parseRgb (callString ''rgb'' [] ''0'' '','' ''0'' '','' ''25500'' '')'') = None"
    by blast
  from parseRgb_rejects_signed_or_long [of _ _ _ _ _ _ _ _ "''rgb(300, 102, 0)''"
      "\<lparr>rgba_r = 255, rgba_g = 102, rgba_b = 0, rgba_a = 1\<rparr>"]
  have r3: "channelsInRange \<lparr>rgba_r = 255, rgba_g = 102, rgba_b = 0, rgba_a = 1\<rparr>"
    by blast
  from w1 b1 s1 r1 w2 b2 r2 r3 show ?thesis by (simp only: simp_thms)
qed

section \<open>Claims about the conversion to HSLA\<close>

text \<open>
  Claim C6 does not hold as it is stated: the hue of the color with channels 255, 0, 1 is
  359.76 degrees before rounding, and \<open>rgbaToHsla\<close> rounds it to 360, outside \<open>[0, 360)\<close>.
\<close>

theorem rgbaToHsla_hue_counterexample:
  "hsla_h (rgbaToHsla \<lparr>rgba_r = 255, rgba_g = 0, rgba_b = 1, rgba_a = 1\<rparr>) = 360"
  unfolding rgbaToHsla_def Let_def Math_round_def by simp

text \<open>
  Claim C6, amended. For channels between 0 and 255, \<open>rgbaToHsla\<close> returns a hue that is an
  integer between 0 and 360, both included, a saturation and a lightness that are integers
  between 0 and 100, and the alpha of its argument unchanged.
\<close>

theorem rgbaToHsla_ranges:
  assumes "channelsInRange rgba"
  shows "hsla_h (rgbaToHsla rgba) \<in> \<int> \<and> 0 \<le> hsla_h (rgbaToHsla rgba) \<and> hsla_h (rgbaToHsla rgba) \<le> 360
       \<and> hsla_s (rgbaToHsla rgba) \<in> \<int> \<and> 0 \<le> hsla_s (rgbaToHsla rgba) \<and> hsla_s (rgbaToHsla rgba) \<le> 100
       \<and> hsla_l (rgbaToHsla rgba) \<in> \<int> \<and> 0 \<le> hsla_l (rgbaToHsla rgba) \<and> hsla_l (rgbaToHsla rgba) \<le> 100
       \<and> hsla_a (rgbaToHsla rgba) = rgba_a rgba"
proof -
  define r where "r = rgba_r rgba / 255"
  define g where "g = rgba_g rgba / 255"
  define b where "b = rgba_b rgba / 255"
  define mx where "mx = max r (max g b)"
  define mn where "mn = min r (min g b)"
  define l where "l = (mx + mn) / 2"
  define d where "d = mx - mn"
  define s where "s = (if mx \<noteq> mn then (if l > 0.5 then d / (2 - mx - mn) else d / (mx + mn)) else 0)"
  define h where "h = (if mx \<noteq> mn then
                 (if mx = r then ((g - b) / d + (if g < b then 6 else 0)) / 6
                  else if mx = g then ((b - r) / d + 2) / 6
                  else if mx = b then ((r - g) / d + 4) / 6
                  else 0)
               else 0)"
  have res: "rgbaToHsla rgba = \<lparr>hsla_h = Math_round (h * 360), hsla_s = Math_round (s * 100),
          hsla_l = Math_round (l * 100), hsla_a = rgba_a rgba\<rparr>"
    unfolding rgbaToHsla_def Let_def h_def s_def l_def d_def mx_def mn_def r_def g_def b_def ..
  have rng: "0 \<le> r" "r \<le> 1" "0 \<le> g" "g \<le> 1" "0 \<le> b" "b \<le> 1"
    using assms by (simp_all add: channelsInRange_def r_def g_def b_def)
  from hsl_raw_bounds [OF rng]
  have "0 \<le> l \<and> l \<le> 1" "0 \<le> s \<and> s \<le> 1" "0 \<le> h \<and> h < 1"
    unfolding h_def s_def l_def d_def mx_def mn_def by blast+
  then have b: "0 \<le> h * 360" "h * 360 \<le> of_int 360" "0 \<le> s * 100" "s * 100 \<le> of_int 100"
    "0 \<le> l * 100" "l * 100 \<le> of_int 100"
    by simp_all
  have "0 \<le> Math_round (h * 360) \<and> Math_round (h * 360) \<le> of_int 360 \<and> Math_round (h * 360) \<in> \<int>"
    using b(1,2) by (rule Math_round_bounds)
  moreover
  have "0 \<le> Math_round (s * 100) \<and> Math_round (s * 100) \<le> of_int 100 \<and> Math_round (s * 100) \<in> \<int>"
    using b(3,4) by (rule Math_round_bounds)
  moreover
  have "0 \<le> Math_round (l * 100) \<and> Math_round (l * 100) \<le> of_int 100 \<and> Math_round (l * 100) \<in> \<int>"
    using b(5,6) by (rule Math_round_bounds)
  ultimately show ?thesis by (simp add: res)
qed

theorem rgbaToHsla_ranges_witness:
  "channelsInRange \<lparr>rgba_r = 255, rgba_g = 102, rgba_b = 0, rgba_a = 1\<rparr>
   \<and> hsla_h (rgbaToHsla \<lparr>rgba_r = 255, rgba_g = 102, rgba_b = 0, rgba_a = 1\<rparr>) \<le> 360
   \<and> rgbaToHsla \<lparr>rgba_r = 255, rgba_g = 102, rgba_b = 0, rgba_a = 1\<rparr>
      = \<lparr>hsla_h = 24, hsla_s = 100, hsla_l = 50, hsla_a = 1\<rparr>"
proof -
  have h: "channelsInRange \<lparr>rgba_r = 255, rgba_g = 102, rgba_b = 0, rgba_a = 1\<rparr>"
    by (simp add: channelsInRange_def)
  have "rgbaToHsla \<lparr>rgba_r = 255, rgba_g = 102, rgba_b = 0, rgba_a = 1\<rparr>
      = \<lparr>hsla_h = 24, hsla_s = 100, hsla_l = 50, hsla_a = 1\<rparr>"
    unfolding rgbaToHsla_def Let_def Math_round_def by simp
  with rgbaToHsla_ranges [OF h] h show ?thesis by blast
qed

section \<open>Claims about normalization\<close>

text \<open>
  Claim C4 does not hold as it is stated. The alpha 0.999 is below 1, so the hex string gets
  an alpha pair; 0.999 times 255 rounds to 255, the pair is \<open>FF\<close>, and the hex string
  \<open>#FF0000FF\<close> parses to alpha 1, whose hex string has no alpha pair.
\<close>

theorem normalizeColor_hex_counterexample:
  "normalizedHex ''rgba(255, 0, 0, 0.999)'' = Some ''#FF0000FF''
   \<and> normalizedHex ''#FF0000FF'' = Some ''#FF0000''"
  by (simp add: normalizedHex_eq parse_eval regex_eval builtin_eval string_eval)

text \<open>
  Claim C4, amended. For every input string on which \<open>normalizeColor\<close> succeeds with an alpha
  that is 1, or below 1 with 255 times the alpha below 254.5, normalizing the hex string of
  the result succeeds and gives the same hex string.
\<close>

theorem normalizeColor_hex_idempotent:
  assumes "normalizeColor c = Inr nc"
    and "rgba_a (nc_rgba nc) < 1 \<longrightarrow> rgba_a (nc_rgba nc) * 255 < 254.5"
  shows "\<exists>nc'. normalizeColor (nc_hex nc) = Inr nc' \<and> nc_hex nc' = nc_hex nc"
proof -
  from assms(1) obtain rgba where p: "parseColor c = Some rgba"
    by (cases "parseColor c") (simp_all add: normalizeColor_def)
  with assms(1) have nc: "nc_rgba nc = rgba" "nc_hex nc = rgbaToHex rgba"
    by (auto simp: normalizeColor_def Let_def)
  define rgba' where "rgba' = \<lparr>rgba_r = rgba_r rgba, rgba_g = rgba_g rgba, rgba_b = rgba_b rgba,
                 rgba_a = (if rgba_a rgba < 1 then of_int \<lfloor>rgba_a rgba * 255 + 1 / 2\<rfloor> / 255 else 1)\<rparr>"
  from p have "parsedRgba rgba" by (rule parseColor_parsedRgba)
  then have re: "parseColor (rgbaToHex rgba) = Some rgba'"
    unfolding rgba'_def by (rule reparse_hex)
  from assms(2) have "rgbaToHex rgba' = rgbaToHex rgba"
    unfolding rgba'_def nc(1) by (rule rehex)
  with re show ?thesis
    by (simp add: nc(2) normalizeColor_def Let_def)
qed

theorem normalizeColor_hex_idempotent_witness:
  "normalizedHex ''rgba(255, 102, 0, 0.5)'' = Some ''#FF660080''
   \<and> normalizedHex ''#FF660080'' = Some ''#FF660080''"
proof -
  let ?c = "''rgba(255, 102, 0, 0.5)''"
  let ?rgba = "\<lparr>rgba_r = 255, rgba_g = 102, rgba_b = 0, rgba_a = 0.5\<rparr>"
  define nc where "nc = \<lparr>nc_input = ?c, nc_rgba = ?rgba, nc_hex = rgbaToHex ?rgba,
     nc_hsla = rgbaToHsla ?rgba, nc_oklab = rgbaToOklab ?rgba,
     nc_oklch = oklabToOklch (rgbaToOklab ?rgba)\<rparr>"
  have p: "parseColor ?c = Some ?rgba"
    by (simp add: parse_eval regex_eval builtin_eval string_eval)
  have n: "normalizeColor ?c = Inr nc"
    by (simp add: normalizeColor_def p Let_def nc_def)
  have a: "rgba_a (nc_rgba nc) < 1 \<longrightarrow> rgba_a (nc_rgba nc) * 255 < 254.5"
    by (simp add: nc_def)
  have h: "nc_hex nc = ''#FF660080''"
    by (simp add: nc_def parse_eval builtin_eval string_eval)
  from normalizeColor_hex_idempotent [OF n a] obtain nc' where
    "normalizeColor (nc_hex nc) = Inr nc'" "nc_hex nc' = nc_hex nc" by blast
  then have "normalizedHex ''#FF660080'' = Some ''#FF660080''"
    by (simp add: normalizedHex_def h)
  moreover have "normalizedHex ?c = Some ''#FF660080''"
    using n h by (simp add: normalizedHex_def)
  ultimately show ?thesis by blast
qed

section \<open>Claims about the contrast engine\<close>

text \<open>
  Claim C7. \<open>getContrastRatio\<close> is symmetric in its two arguments; for colors with channels
  between 0 and 255 it is 1 on two identical arguments and lies between 1 and 21; black
  against white is 21.
\<close>

theorem getContrastRatio_symmetric_bounded:
  "getContrastRatio x y = getContrastRatio y x
   \<and> (channelsInRange x \<longrightarrow> getContrastRatio x x = 1)
   \<and> (channelsInRange x \<and> channelsInRange y \<longrightarrow>
        1 \<le> getContrastRatio x y \<and> getContrastRatio x y \<le> 21)
   \<and> getContrastRatio \<lparr>rgba_r = 0, rgba_g = 0, rgba_b = 0, rgba_a = 1\<rparr>
        \<lparr>rgba_r = 255, rgba_g = 255, rgba_b = 255, rgba_a = 1\<rparr> = 21"
proof (intro conjI impI)
  show "getContrastRatio x y = getContrastRatio y x"
    by (simp add: getContrastRatio_def Let_def max.commute min.commute)
next
  assume "channelsInRange x"
  then have "0 \<le> getRelativeLuminance x" by (simp add: getRelativeLuminance_bounds)
  then show "getContrastRatio x x = 1" by (simp add: getContrastRatio_def Let_def)
next
  assume "channelsInRange x \<and> channelsInRange y"
  then have "0 \<le> getRelativeLuminance x" "getRelativeLuminance x \<le> 1"
    "0 \<le> getRelativeLuminance y" "getRelativeLuminance y \<le> 1"
    by (simp_all add: getRelativeLuminance_bounds)
  then have "1 \<le> (max (getRelativeLuminance x) (getRelativeLuminance y) + 0.05)
                  / (min (getRelativeLuminance x) (getRelativeLuminance y) + 0.05)
             \<and> (max (getRelativeLuminance x) (getRelativeLuminance y) + 0.05)
                  / (min (getRelativeLuminance x) (getRelativeLuminance y) + 0.05) \<le> 21"
    by (rule contrast_of_luminances)
  then show "1 \<le> getContrastRatio x y" "getContrastRatio x y \<le> 21"
    by (simp_all add: getContrastRatio_def Let_def)
next
  show "getContrastRatio \<lparr>rgba_r = 0, rgba_g = 0, rgba_b = 0, rgba_a = 1\<rparr>
        \<lparr>rgba_r = 255, rgba_g = 255, rgba_b = 255, rgba_a = 1\<rparr> = 21"
    by (simp add: getContrastRatio_def Let_def luminance_black luminance_white)
qed

theorem getContrastRatio_symmetric_bounded_witness:
  "channelsInRange darkTextRgba \<and> channelsInRange lightTextRgba
   \<and> getContrastRatio darkTextRgba darkTextRgba = 1
   \<and> 1 \<le> getContrastRatio darkTextRgba lightTextRgba
   \<and> getContrastRatio darkTextRgba lightTextRgba \<le> 21"
proof -
  have h: "channelsInRange darkTextRgba" "channelsInRange lightTextRgba"
    by (simp_all add: channelsInRange_def darkTextRgba_def lightTextRgba_def)
  from getContrastRatio_symmetric_bounded [of darkTextRgba lightTextRgba] h
  show ?thesis by blast
qed

text \<open>
  Claim C8. \<open>computeTextColor\<close> returns \<open>#111111\<close> or \<open>#FFFFFF\<close> for every string: \<open>#111111\<close> when
  the string does not parse, and otherwise \<open>#FFFFFF\<close> exactly when the contrast of the
  background with white is higher than its contrast with the dark reference, which is the
  color \<open>#111111\<close>. Black gets white text, white gets dark text, and the string \<open>invalid\<close>
  gets dark text.
\<close>

theorem computeTextColor_two_values:
  "(computeTextColor s = ''#111111'' \<or> computeTextColor s = ''#FFFFFF'')
   \<and> (parseColor s = None \<longrightarrow> computeTextColor s = ''#111111'')
   \<and> (\<forall>bg. parseColor s = Some bg \<longrightarrow>
         computeTextColor s =
           (if getContrastRatio bg lightTextRgba > getContrastRatio bg darkTextRgba
            then ''#FFFFFF'' else ''#111111''))
   \<and> parseColor ''#111111'' = Some darkTextRgba
   \<and> parseColor ''#FFFFFF'' = Some lightTextRgba
   \<and> computeTextColor ''#000000'' = ''#FFFFFF''
   \<and> computeTextColor ''#FFFFFF'' = ''#111111''
   \<and> computeTextColor ''invalid'' = ''#111111''"
proof (intro conjI allI impI)
  show "computeTextColor s = ''#111111'' \<or> computeTextColor s = ''#FFFFFF''"
    by (simp add: computeTextColor_def Let_def DARK_TEXT_def LIGHT_TEXT_def split: option.splits)
  show "computeTextColor s = ''#111111''" if "parseColor s = None"
    using that by (simp add: computeTextColor_def DARK_TEXT_def)
  show "computeTextColor s =
           (if getContrastRatio bg lightTextRgba > getContrastRatio bg darkTextRgba
            then ''#FFFFFF'' else ''#111111'')" if "parseColor s = Some bg" for bg
    using that by (simp add: computeTextColor_def Let_def DARK_TEXT_def LIGHT_TEXT_def)
  show "parseColor ''#111111'' = Some darkTextRgba"
    by (simp add: parse_eval builtin_eval string_eval darkTextRgba_def)
  show "parseColor ''#FFFFFF'' = Some lightTextRgba"
    by (simp add: parse_eval builtin_eval string_eval lightTextRgba_def)
  show "computeTextColor ''#000000'' = ''#FFFFFF''" by (rule computeTextColor_black)
  show "computeTextColor ''#FFFFFF'' = ''#111111''" by (rule computeTextColor_white)
  show "computeTextColor ''invalid'' = ''#111111''" by (rule computeTextColor_invalid)
qed

theorem computeTextColor_two_values_witness:
  "parseColor ''#FFFFFF'' = Some lightTextRgba
   \<and> computeTextColor ''#FFFFFF'' =
       (if getContrastRatio lightTextRgba lightTextRgba > getContrastRatio lightTextRgba darkTextRgba
        then ''#FFFFFF'' else ''#111111'')
   \<and> parseColor ''not-a-color'' = None
   \<and> computeTextColor ''not-a-color'' = ''#111111''"
proof -
  have p: "parseColor ''#FFFFFF'' = Some lightTextRgba"
    by (simp add: parse_eval builtin_eval string_eval lightTextRgba_def)
  have n: "parseColor ''not-a-color'' = None"
    by (simp add: parse_eval regex_eval builtin_eval string_eval)
  from computeTextColor_two_values [of "''#FFFFFF''"] p
  have 1: "computeTextColor ''#FFFFFF'' =
       (if getContrastRatio lightTextRgba lightTextRgba > getContrastRatio lightTextRgba darkTextRgba
        then ''#FFFFFF'' else ''#111111'')"
    by blast
  from computeTextColor_two_values [of "''not-a-color''"] n
  have 2: "computeTextColor ''not-a-color'' = ''#111111''" by blast
  from p n 1 2 show ?thesis by blast
qed

end
